theory Spec2Isabelle
  imports Complex_Main "HOL-Library.AList" "HOL-Library.Sublist"
begin

section \<open>Python values and exceptions\<close>

text \<open>
  The repository is dynamically typed Python. A Python \<open>str\<close> is modelled as a \<open>string\<close>
  whose characters stand for one code point each (the first 256 code points), a \<open>float\<close>
  clock reading as a \<open>real\<close>, a \<open>dict\<close> with string keys as an association list in insertion
  order. Exceptions deriving from \<open>Exception\<close> are values of \<open>exn\<close>; a function that may
  raise returns \<open>exn + 'a\<close> with \<open>Inl\<close> the exception. Signals that derive from
  \<open>BaseException\<close> only (keyboard interrupt, task cancellation) are outside the model.
\<close>

datatype exn =
    IndexError string
  | KeyError string
  | AttributeError string
  | TypeError string
  | BackendError string

text \<open>\<open>str(e)\<close>: the message of the exception.\<close>

fun str_exn :: "exn \<Rightarrow> string" where
  "str_exn (IndexError m) = m"
| "str_exn (KeyError m) = m"
| "str_exn (AttributeError m) = m"
| "str_exn (TypeError m) = m"
| "str_exn (BackendError m) = m"

datatype pyval =
    PNone
  | PBool bool
  | PInt int
  | PFloat real
  | PStr string
  | PList "pyval list"
  | PDict "(string \<times> pyval) list"

type_synonym pydict = "(string \<times> pyval) list"

text \<open>\<open>xs[i]\<close> for a list and an index that is never negative here.\<close>

definition list_index :: "'a list \<Rightarrow> nat \<Rightarrow> exn + 'a" where
  "list_index xs i =
     (if i < length xs then Inr (xs ! i) else Inl (IndexError ''list index out of range''))"

text \<open>\<open>str(n)\<close> on an integer: its decimal digits.\<close>

definition digit_char :: "nat \<Rightarrow> char" where
  "digit_char d = ''0123456789'' ! d"

function str_nat :: "nat \<Rightarrow> string" where
  "str_nat n = (if n < 10 then [digit_char n] else str_nat (n div 10) @ [digit_char (n mod 10)])"
  by pat_completeness auto
termination
  by (relation "measure (\<lambda>n. n)") auto

declare str_nat.simps [simp del]

definition str_int :: "int \<Rightarrow> string" where
  "str_int i = (if i < 0 then CHR ''-'' # str_nat (nat (- i)) else str_nat (nat i))"

section \<open>modules/memory/vectordb.py: VectorStorage\<close>

text \<open>
  The embedding store (ChromaDB) is an external collaborator. A collection is a value of an
  abstract type \<open>'c\<close>; the two operations the code calls on it are parameters, each of which
  may raise. \<open>coll_add c documents metadatas ids\<close> is \<open>collection.add\<close>,
  \<open>coll_query c query_texts n_results\<close> is \<open>collection.query\<close>.
\<close>

record query_result =
  documents :: "string list list"
  metadatas :: "pydict list list"
  ids :: "string list list"

record 'c chroma =
  coll_add :: "'c \<Rightarrow> string list \<Rightarrow> pydict list \<Rightarrow> string list \<Rightarrow> exn + 'c"
  coll_query :: "'c \<Rightarrow> string list \<Rightarrow> int \<Rightarrow> exn + query_result"

record 'c VectorStorage =
  conversation_collection :: 'c
  reference_collection :: 'c

text \<open>
  \<open>add_conversation\<close>: \<open>id_ms\<close> is the integer \<open>int(time.time() * 1000)\<close> evaluates to;
  the program multiplies and truncates in floating point, and the model takes the integer
  that results from its environment instead of computing it. \<open>t_fmt\<close> is the string
  \<open>time.strftime\<close> returns. \<open>if not metadata\<close> replaces \<open>None\<close> and the empty dict by
  a new empty dict.
\<close>

definition add_conversation ::
  "'c chroma \<Rightarrow> int \<Rightarrow> string \<Rightarrow> string \<Rightarrow> string \<Rightarrow> pydict option \<Rightarrow> 'c VectorStorage
     \<Rightarrow> exn + (string \<times> 'c VectorStorage)" where
  "add_conversation be id_ms t_fmt text_in speaker metadata vs =
     (let md = (case metadata of None \<Rightarrow> [] | Some m \<Rightarrow> m);
          entry_id = ''conv_'' @ str_int id_ms;
          md' = AList.update ''timestamp'' (PStr t_fmt)
                  (AList.update ''speaker'' (PStr speaker) md)
      in case coll_add be (conversation_collection vs) [text_in] [md'] [entry_id] of
           Inl e \<Rightarrow> Inl e
         | Inr c' \<Rightarrow> Inr (entry_id, vs\<lparr>conversation_collection := c'\<rparr>))"

text \<open>\<open>VectorStorage.add_reference\<close>, named apart from the method of the same name
  of the context manager.\<close>

definition add_reference_vs ::
  "'c chroma \<Rightarrow> int \<Rightarrow> string \<Rightarrow> string \<Rightarrow> string \<Rightarrow> pydict option \<Rightarrow> 'c VectorStorage
     \<Rightarrow> exn + (string \<times> 'c VectorStorage)" where
  "add_reference_vs be id_ms t_fmt content url metadata vs =
     (let md = (case metadata of None \<Rightarrow> [] | Some m \<Rightarrow> m);
          entry_id = ''ref_'' @ str_int id_ms;
          md' = AList.update ''timestamp'' (PStr t_fmt)
                  (AList.update ''url'' (PStr url) md)
      in case coll_add be (reference_collection vs) [content] [md'] [entry_id] of
           Inl e \<Rightarrow> Inl e
         | Inr c' \<Rightarrow> Inr (entry_id, vs\<lparr>reference_collection := c'\<rparr>))"

text \<open>
  The formatting loop of \<open>search_conversations\<close> and \<open>search_references\<close>:
  \<open>for i in range(len(results['documents'][0]))\<close>, each index read raising \<open>IndexError\<close>
  out of range. A formatted hit is the triple (text or content, metadata, id).
\<close>

record hit =
  hit_text :: string
  hit_metadata :: pydict
  hit_id :: string

fun format_results :: "query_result \<Rightarrow> nat list \<Rightarrow> hit list \<Rightarrow> exn + hit list" where
  "format_results r [] formatted_results = Inr formatted_results"
| "format_results r (i # is) formatted_results =
     (case list_index (documents r) 0 of Inl e \<Rightarrow> Inl e | Inr ds \<Rightarrow>
      case list_index ds i of Inl e \<Rightarrow> Inl e | Inr d \<Rightarrow>
      case list_index (metadatas r) 0 of Inl e \<Rightarrow> Inl e | Inr ms \<Rightarrow>
      case list_index ms i of Inl e \<Rightarrow> Inl e | Inr m \<Rightarrow>
      case list_index (ids r) 0 of Inl e \<Rightarrow> Inl e | Inr js \<Rightarrow>
      case list_index js i of Inl e \<Rightarrow> Inl e | Inr j \<Rightarrow>
        format_results r is
          (formatted_results @ [\<lparr>hit_text = d, hit_metadata = m, hit_id = j\<rparr>]))"

definition search_collection :: "'c chroma \<Rightarrow> 'c \<Rightarrow> string \<Rightarrow> int \<Rightarrow> exn + hit list" where
  "search_collection be c query n_results =
     (case coll_query be c [query] n_results of
        Inl e \<Rightarrow> Inl e
      | Inr results \<Rightarrow>
          (case list_index (documents results) 0 of
             Inl e \<Rightarrow> Inl e
           | Inr ds \<Rightarrow> format_results results [0..<length ds] []))"

definition search_conversations ::
  "'c chroma \<Rightarrow> string \<Rightarrow> int \<Rightarrow> 'c VectorStorage \<Rightarrow> exn + hit list" where
  "search_conversations be query n_results vs =
     search_collection be (conversation_collection vs) query n_results"

definition search_references ::
  "'c chroma \<Rightarrow> string \<Rightarrow> int \<Rightarrow> 'c VectorStorage \<Rightarrow> exn + hit list" where
  "search_references be query n_results vs =
     search_collection be (reference_collection vs) query n_results"

section \<open>modules/memory/context.py: ContextManager\<close>

text \<open>
  An entry of the recency window is the dict with the keys \<open>id\<close>, \<open>text\<close>, \<open>speaker\<close>
  and \<open>timestamp\<close>; an active reference is the dict with the keys \<open>id\<close>, \<open>url\<close> and
  \<open>timestamp\<close>.
\<close>

record message =
  msg_id :: string
  msg_text :: string
  msg_speaker :: string
  msg_timestamp :: real

record reference =
  ref_id :: string
  ref_url :: string
  ref_timestamp :: real

text \<open>
  \<open>current_context\<close>. The participants are a Python \<open>set\<close>; \<open>list(participants)\<close> has no
  order the program fixes, so the reads return the set itself.
\<close>

record conversation_context =
  participants :: "string set"
  current_topic :: "string option"
  recent_messages :: "message list"
  active_references :: "reference list"

record 'c ContextManager =
  vector_storage :: "'c VectorStorage"
  current_context :: conversation_context
  max_recent_messages :: int

definition empty_context :: conversation_context where
  "empty_context =
     \<lparr>participants = {}, current_topic = None, recent_messages = [], active_references = []\<rparr>"

definition ContextManager_init :: "'c VectorStorage \<Rightarrow> 'c ContextManager" where
  "ContextManager_init vs =
     \<lparr>vector_storage = vs, current_context = empty_context, max_recent_messages = 10\<rparr>"

text \<open>
  One call of \<open>add_message\<close> and what it reads from its environment: the millisecond
  count and the formatted time that \<open>add_conversation\<close> builds the id and the metadata
  from, then the clock reading that becomes the message's timestamp. The store is written first, so a call whose store
  raises leaves the context as it was. After the append the window is not empty, so
  \<open>pop(0)\<close> removes its first entry and does not raise.
\<close>

record add_call =
  call_text :: string
  call_speaker :: string
  call_metadata :: "pydict option"
  now_id :: int
  now_fmt :: string
  now_msg :: real

definition add_message ::
  "'c chroma \<Rightarrow> add_call \<Rightarrow> 'c ContextManager \<Rightarrow> exn + (string \<times> 'c ContextManager)" where
  "add_message be c cm =
     (case add_conversation be (now_id c) (now_fmt c) (call_text c) (call_speaker c)
             (call_metadata c) (vector_storage cm) of
        Inl e \<Rightarrow> Inl e
      | Inr (message_id, vs') \<Rightarrow>
          (let ctx = current_context cm;
               msgs = recent_messages ctx @
                 [\<lparr>msg_id = message_id, msg_text = call_text c, msg_speaker = call_speaker c,
                   msg_timestamp = now_msg c\<rparr>];
               msgs' = (if int (length msgs) > max_recent_messages cm then tl msgs else msgs)
           in Inr (message_id,
                cm\<lparr>vector_storage := vs',
                   current_context := ctx\<lparr>participants := insert (call_speaker c) (participants ctx),
                                          recent_messages := msgs'\<rparr>\<rparr>)))"

text \<open>
  \<open>add_reference\<close>: \<open>id_ms\<close> and \<open>t_fmt\<close> are what the store builds the id and the
  metadata from, \<open>t_ref\<close> is the clock reading that becomes the timestamp of the active
  reference.
\<close>

definition add_reference ::
  "'c chroma \<Rightarrow> int \<Rightarrow> string \<Rightarrow> real \<Rightarrow> string \<Rightarrow> string \<Rightarrow> pydict option
     \<Rightarrow> 'c ContextManager \<Rightarrow> exn + (string \<times> 'c ContextManager)" where
  "add_reference be id_ms t_fmt t_ref content url metadata cm =
     (case add_reference_vs be id_ms t_fmt content url metadata (vector_storage cm) of
        Inl e \<Rightarrow> Inl e
      | Inr (rid, vs') \<Rightarrow>
          (let ctx = current_context cm
           in Inr (rid,
                cm\<lparr>vector_storage := vs',
                   current_context := ctx\<lparr>active_references := active_references ctx @
                     [\<lparr>ref_id = rid, ref_url = url, ref_timestamp = t_ref\<rparr>]\<rparr>\<rparr>)))"

record snapshot =
  recent_context :: "message list"
  relevant_conversations :: "hit list"
  relevant_references :: "hit list"
  snap_participants :: "string set"
  snap_current_topic :: "string option"

text \<open>
  \<open>get_relevant_context\<close> calls the two searches with no handler of its own: an exception
  of either call leaves the function as it is.
\<close>

definition get_relevant_context ::
  "'c chroma \<Rightarrow> string \<Rightarrow> int \<Rightarrow> 'c ContextManager \<Rightarrow> exn + snapshot" where
  "get_relevant_context be query max_results cm =
     (case search_conversations be query max_results (vector_storage cm) of
        Inl e \<Rightarrow> Inl e
      | Inr convs \<Rightarrow>
          (case search_references be query max_results (vector_storage cm) of
             Inl e \<Rightarrow> Inl e
           | Inr refs \<Rightarrow>
               Inr \<lparr>recent_context = recent_messages (current_context cm),
                    relevant_conversations = convs,
                    relevant_references = refs,
                    snap_participants = participants (current_context cm),
                    snap_current_topic = current_topic (current_context cm)\<rparr>))"

definition update_topic :: "string \<Rightarrow> 'c ContextManager \<Rightarrow> 'c ContextManager" where
  "update_topic topic cm = cm\<lparr>current_context := (current_context cm)\<lparr>current_topic := Some topic\<rparr>\<rparr>"

definition clear_context :: "'c ContextManager \<Rightarrow> 'c ContextManager" where
  "clear_context cm = cm\<lparr>current_context := empty_context\<rparr>"

record summary =
  sum_participants :: "string set"
  sum_topic :: "string option"
  message_count :: int
  reference_count :: int
  duration :: real

text \<open>
  \<open>get_conversation_summary\<close>. The expression for the duration is
  \<open>time.time() - (recent_messages[0]['timestamp'] if recent_messages else time.time())\<close>:
  the left operand is evaluated first and reads the clock (\<open>t1\<close>); when the window is
  empty the right operand reads the clock a second time (\<open>t2\<close>).
\<close>

definition get_conversation_summary :: "real \<Rightarrow> real \<Rightarrow> 'c ContextManager \<Rightarrow> summary" where
  "get_conversation_summary t1 t2 cm =
     \<lparr>sum_participants = participants (current_context cm),
      sum_topic = current_topic (current_context cm),
      message_count = int (length (recent_messages (current_context cm))),
      reference_count = int (length (active_references (current_context cm))),
      duration = t1 - (case recent_messages (current_context cm) of
                         m # _ \<Rightarrow> msg_timestamp m
                       | [] \<Rightarrow> t2)\<rparr>"

definition get_active_references :: "'c ContextManager \<Rightarrow> reference list" where
  "get_active_references cm = active_references (current_context cm)"

definition remove_reference :: "string \<Rightarrow> 'c ContextManager \<Rightarrow> 'c ContextManager" where
  "remove_reference rid cm =
     cm\<lparr>current_context := (current_context cm)
          \<lparr>active_references := filter (\<lambda>r. ref_id r \<noteq> rid) (active_references (current_context cm))\<rparr>\<rparr>"

text \<open>
  A sequence of \<open>add_message\<close> calls made by a caller that catches the exception of a call
  and goes on (as \<open>handle_speech_input\<close> does): the manager after the calls, and the turns
  the calls that returned have added, oldest first.
\<close>

fun add_messages :: "'c chroma \<Rightarrow> add_call list \<Rightarrow> 'c ContextManager \<Rightarrow> 'c ContextManager" where
  "add_messages be [] cm = cm"
| "add_messages be (c # cs) cm =
     (case add_message be c cm of
        Inl e \<Rightarrow> add_messages be cs cm
      | Inr (message_id, cm') \<Rightarrow> add_messages be cs cm')"

fun added_turns :: "'c chroma \<Rightarrow> add_call list \<Rightarrow> 'c ContextManager \<Rightarrow> message list" where
  "added_turns be [] cm = []"
| "added_turns be (c # cs) cm =
     (case add_message be c cm of
        Inl e \<Rightarrow> added_turns be cs cm
      | Inr (message_id, cm') \<Rightarrow>
          \<lparr>msg_id = message_id, msg_text = call_text c, msg_speaker = call_speaker c,
           msg_timestamp = now_msg c\<rparr> # added_turns be cs cm')"

text \<open>
  The entry \<open>add_message\<close> appends to the window for a call that returns: the id the
  store has built from the call's millisecond count, and the call's text, speaker and
  clock reading.
\<close>

definition turn_of :: "add_call \<Rightarrow> message" where
  "turn_of c =
     \<lparr>msg_id = ''conv_'' @ str_int (now_id c), msg_text = call_text c,
      msg_speaker = call_speaker c, msg_timestamp = now_msg c\<rparr>"

text \<open>
  Concrete stores for closed statements. A collection is its name here. \<open>ok_store\<close> accepts
  every document and finds nothing, the queries of \<open>down_store\<close> fail, and
  \<open>ref_down_store\<close> fails only on the collection of references.
\<close>

definition empty_result :: query_result where
  "empty_result = \<lparr>documents = [[]], metadatas = [[]], ids = [[]]\<rparr>"

definition ok_store :: "string chroma" where
  "ok_store = \<lparr>coll_add = (\<lambda>c ds ms js. Inr c),
               coll_query = (\<lambda>c qs n. Inr empty_result)\<rparr>"

definition down_store :: "string chroma" where
  "down_store = \<lparr>coll_add = (\<lambda>c ds ms js. Inr c),
                 coll_query = (\<lambda>c qs n. Inl (BackendError ''backend unavailable''))\<rparr>"

definition ref_down_store :: "string chroma" where
  "ref_down_store =
     \<lparr>coll_add = (\<lambda>c ds ms js. Inr c),
      coll_query = (\<lambda>c qs n. if c = ''references''
                               then Inl (BackendError ''backend unavailable'')
                               else Inr empty_result)\<rparr>"

definition fresh_manager :: "string ContextManager" where
  "fresh_manager =
     ContextManager_init
       \<lparr>conversation_collection = ''conversations'', reference_collection = ''references''\<rparr>"

definition call_at :: "nat \<Rightarrow> add_call" where
  "call_at n = \<lparr>call_text = ''hello'', call_speaker = ''Human'', call_metadata = None,
                now_id = int n * 1000, now_fmt = ''2024-01-01 00:00:00'', now_msg = real n\<rparr>"

text \<open>
  What a well-formed answer of \<open>collection.query\<close> to one query text looks like, and the
  hits the formatting loop makes of it: one row of documents, and a metadata and an id for
  each document of the row.
\<close>

definition aligned :: "query_result \<Rightarrow> bool" where
  "aligned r =
     (case (documents r, metadatas r, ids r) of
        (ds # _, ms # _, js # _) \<Rightarrow> length ds \<le> length ms \<and> length ds \<le> length js
      | _ \<Rightarrow> False)"

definition hits_of :: "query_result \<Rightarrow> hit list" where
  "hits_of r =
     (case (documents r, metadatas r, ids r) of
        (ds # _, ms # _, js # _) \<Rightarrow>
          map (\<lambda>(d, m, j). \<lparr>hit_text = d, hit_metadata = m, hit_id = j\<rparr>)
            (zip ds (zip ms js))
      | _ \<Rightarrow> [])"

section \<open>modules/utils/helpers.py\<close>

text \<open>
  \<open>str.split()\<close> with no argument splits at runs of whitespace and drops empty pieces.
  The whitespace characters are those of \<open>str.isspace\<close> among the first 256 code points.
\<close>


definition is_space :: "char \<Rightarrow> bool" where
  "is_space c = (of_char c \<in> {9, 10, 11, 12, 13, 28, 29, 30, 31, 32, 133, 160 :: nat})"

fun split_from :: "string \<Rightarrow> string \<Rightarrow> string list" where
  "split_from cur [] = (if cur = [] then [] else [cur])"
| "split_from cur (c # cs) =
     (if is_space c then (if cur = [] then split_from [] cs else cur # split_from [] cs)
      else split_from (cur @ [c]) cs)"

definition py_split :: "string \<Rightarrow> string list" where
  "py_split s = split_from [] s"

fun join_space :: "string list \<Rightarrow> string" where
  "join_space [] = []"
| "join_space [w] = w"
| "join_space (w # v # ws) = w @ CHR '' '' # join_space (v # ws)"

fun chunk_loop ::
  "int \<Rightarrow> string list \<Rightarrow> string list \<Rightarrow> string list \<Rightarrow> int
     \<Rightarrow> string list \<times> string list \<times> int" where
  "chunk_loop chunk_size [] chunks current_chunk current_size =
     (chunks, current_chunk, current_size)"
| "chunk_loop chunk_size (word # words) chunks current_chunk current_size =
     (let word_size = int (length word) + 1
      in if current_size + word_size > chunk_size
         then chunk_loop chunk_size words (chunks @ [join_space current_chunk]) [word] word_size
         else chunk_loop chunk_size words chunks (current_chunk @ [word])
                (current_size + word_size))"

definition chunk_text :: "string \<Rightarrow> int \<Rightarrow> string list" where
  "chunk_text s chunk_size =
     (case chunk_loop chunk_size (py_split s) [] [] 0 of
        (chunks, current_chunk, current_size) \<Rightarrow>
          if current_chunk \<noteq> [] then chunks @ [join_space current_chunk] else chunks)"

text \<open>
  Notions used to state the properties of \<open>chunk_text\<close>: a word (non-empty, no
  whitespace), the size the loop accounts for a list of words, the last step of
  \<open>chunk_text\<close> on the state the loop returns, and what is claimed of one chunk.
\<close>

definition word :: "string \<Rightarrow> bool" where
  "word w = (w \<noteq> [] \<and> (\<forall>c \<in> set w. \<not> is_space c))"

definition wsize :: "string list \<Rightarrow> int" where
  "wsize ws = (\<Sum>w\<leftarrow>ws. int (length w) + 1)"

definition finish :: "string list \<times> string list \<times> int \<Rightarrow> string list" where
  "finish st = (case st of (chunks, current_chunk, current_size) \<Rightarrow>
          if current_chunk \<noteq> [] then chunks @ [join_space current_chunk] else chunks)"

definition chunk_ok :: "int \<Rightarrow> string \<Rightarrow> bool" where
  "chunk_ok n c =
     ((2 \<le> length (py_split c) \<longrightarrow> int (length c) \<le> n) \<and>
      (\<forall>w \<in> set (py_split c). n < int (length w) \<longrightarrow> c = w))"

section \<open>modules/ai/thinking.py: ThoughtEngine\<close>

text \<open>
  The operations of Python the thought cycle uses on values whose type it does not
  check: truth value, \<open>x.get(k, default)\<close>, \<open>x[k]\<close> for a string key, \<open>x[0]\<close> and
  iteration. Each raises what Python raises on a value of the wrong type.
\<close>

fun truthy :: "pyval \<Rightarrow> bool" where
  "truthy PNone = False"
| "truthy (PBool b) = b"
| "truthy (PInt i) = (i \<noteq> 0)"
| "truthy (PFloat x) = (x \<noteq> 0)"
| "truthy (PStr s) = (s \<noteq> [])"
| "truthy (PList xs) = (xs \<noteq> [])"
| "truthy (PDict kvs) = (kvs \<noteq> [])"

fun type_name :: "pyval \<Rightarrow> string" where
  "type_name PNone = ''NoneType''"
| "type_name (PBool b) = ''bool''"
| "type_name (PInt i) = ''int''"
| "type_name (PFloat x) = ''float''"
| "type_name (PStr s) = ''str''"
| "type_name (PList xs) = ''list''"
| "type_name (PDict kvs) = ''dict''"

definition quoted :: "string \<Rightarrow> string" where
  "quoted s = CHR 0x27 # s @ [CHR 0x27]"

definition py_get :: "pyval \<Rightarrow> string \<Rightarrow> pyval \<Rightarrow> exn + pyval" where
  "py_get x k d =
     (case x of
        PDict kvs \<Rightarrow> Inr (case map_of kvs k of None \<Rightarrow> d | Some v \<Rightarrow> v)
      | _ \<Rightarrow> Inl (AttributeError
                 (quoted (type_name x) @ '' object has no attribute '' @ quoted ''get'')))"

definition py_getitem_key :: "pyval \<Rightarrow> string \<Rightarrow> exn + pyval" where
  "py_getitem_key x k =
     (case x of
        PDict kvs \<Rightarrow> (case map_of kvs k of None \<Rightarrow> Inl (KeyError (quoted k)) | Some v \<Rightarrow> Inr v)
      | PStr s \<Rightarrow> Inl (TypeError ''string indices must be integers'')
      | PList xs \<Rightarrow> Inl (TypeError ''list indices must be integers or slices, not str'')
      | _ \<Rightarrow> Inl (TypeError (quoted (type_name x) @ '' object is not subscriptable'')))"

definition py_getitem_0 :: "pyval \<Rightarrow> exn + pyval" where
  "py_getitem_0 x =
     (case x of
        PList xs \<Rightarrow> (case xs of [] \<Rightarrow> Inl (IndexError ''list index out of range'')
                               | v # _ \<Rightarrow> Inr v)
      | PStr s \<Rightarrow> (case s of [] \<Rightarrow> Inl (IndexError ''string index out of range'')
                             | c # _ \<Rightarrow> Inr (PStr [c]))
      | PDict kvs \<Rightarrow> Inl (KeyError ''0'')
      | _ \<Rightarrow> Inl (TypeError (quoted (type_name x) @ '' object is not subscriptable'')))"

definition py_iter :: "pyval \<Rightarrow> exn + pyval list" where
  "py_iter x =
     (case x of
        PList xs \<Rightarrow> Inr xs
      | PDict kvs \<Rightarrow> Inr (map (\<lambda>kv. PStr (fst kv)) kvs)
      | PStr s \<Rightarrow> Inr (map (\<lambda>c. PStr [c]) s)
      | _ \<Rightarrow> Inl (TypeError (quoted (type_name x) @ '' object is not iterable'')))"

text \<open>
  The three collaborators a thought cycle calls, each of which may raise: the analysis
  crew (serialising the context and running the crew), the web search, and the response
  crew. \<open>_search_internet\<close>, \<open>_analyze_context\<close> and \<open>_generate_response\<close> wrap one
  call each in \<open>try\<close>/\<open>except Exception\<close> and are named here without the underscore.
\<close>

record thought_backends =
  analysis_crew_run :: "pyval \<Rightarrow> string \<Rightarrow> exn + pyval"
  tavily_search :: "pyval \<Rightarrow> exn + pyval"
  response_crew_run :: "pyval \<Rightarrow> pyval \<Rightarrow> pyval option \<Rightarrow> exn + pyval"

definition search_internet :: "thought_backends \<Rightarrow> pyval \<Rightarrow> pyval" where
  "search_internet be query =
     (case tavily_search be query of
        Inr search_result \<Rightarrow> PDict [(''results'', search_result), (''status'', PStr ''success'')]
      | Inl e \<Rightarrow> PDict [(''error'', PStr (str_exn e)), (''status'', PStr ''error'')])"

definition analyze_context :: "thought_backends \<Rightarrow> pyval \<Rightarrow> string \<Rightarrow> pyval" where
  "analyze_context be ctx current_discussion =
     (case analysis_crew_run be ctx current_discussion of
        Inr result \<Rightarrow> PDict [(''analysis'', result), (''status'', PStr ''success'')]
      | Inl e \<Rightarrow> PDict [(''error'', PStr (str_exn e)), (''status'', PStr ''error'')])"

definition generate_response ::
  "thought_backends \<Rightarrow> pyval \<Rightarrow> pyval \<Rightarrow> pyval option \<Rightarrow> pyval" where
  "generate_response be ctx analysis search_results =
     (case response_crew_run be ctx analysis search_results of
        Inr result \<Rightarrow> result
      | Inl e \<Rightarrow> PStr (''Error generating response: '' @ str_exn e))"

text \<open>
  The body of the \<open>try\<close> of \<open>process_thought\<close>, step by step. \<open>query or e\<close> evaluates
  \<open>e\<close> only when the query is \<open>None\<close> or empty.
\<close>

definition truthy_query :: "string option \<Rightarrow> bool" where
  "truthy_query query = (case query of None \<Rightarrow> False | Some s \<Rightarrow> s \<noteq> [])"

definition search_needed :: "string option \<Rightarrow> pyval \<Rightarrow> exn + bool" where
  "search_needed query analysis =
     (if truthy_query query then Inr True
      else case py_get analysis ''analysis'' (PDict []) of
             Inl e \<Rightarrow> Inl e
           | Inr a \<Rightarrow>
               (case py_get a ''areas_needing_clarification'' PNone of
                  Inl e \<Rightarrow> Inl e
                | Inr v \<Rightarrow> Inr (truthy v)))"

definition first_clarification :: "pyval \<Rightarrow> exn + pyval" where
  "first_clarification analysis =
     (case py_getitem_key analysis ''analysis'' of
        Inl e \<Rightarrow> Inl e
      | Inr a \<Rightarrow>
          (case py_getitem_key a ''areas_needing_clarification'' of
             Inl e \<Rightarrow> Inl e
           | Inr v \<Rightarrow> py_getitem_0 v))"

definition search_query_of :: "string option \<Rightarrow> pyval \<Rightarrow> exn + pyval" where
  "search_query_of query analysis =
     (case query of
        None \<Rightarrow> first_clarification analysis
      | Some s \<Rightarrow> if s = [] then first_clarification analysis else Inr (PStr s))"

fun reference_triples :: "pyval list \<Rightarrow> exn + pyval list" where
  "reference_triples [] = Inr []"
| "reference_triples (result # results) =
     (case py_get result ''title'' (PStr []) of Inl e \<Rightarrow> Inl e | Inr t \<Rightarrow>
      case py_get result ''url'' (PStr []) of Inl e \<Rightarrow> Inl e | Inr u \<Rightarrow>
      case py_get result ''snippet'' (PStr []) of Inl e \<Rightarrow> Inl e | Inr s \<Rightarrow>
      case reference_triples results of Inl e \<Rightarrow> Inl e | Inr refs \<Rightarrow>
        Inr (PDict [(''title'', t), (''url'', u), (''snippet'', s)] # refs))"

definition extract_references :: "pyval option \<Rightarrow> exn + pyval list" where
  "extract_references search_results =
     (case search_results of
        None \<Rightarrow> Inr []
      | Some sr \<Rightarrow>
          if \<not> truthy sr then Inr []
          else case py_get sr ''status'' PNone of
                 Inl e \<Rightarrow> Inl e
               | Inr st \<Rightarrow>
                   if st = PStr ''success''
                   then case py_get sr ''results'' (PList []) of
                          Inl e \<Rightarrow> Inl e
                        | Inr rs \<Rightarrow>
                            (case py_iter rs of Inl e \<Rightarrow> Inl e | Inr xs \<Rightarrow> reference_triples xs)
                   else Inr [])"

definition process_thought_try ::
  "thought_backends \<Rightarrow> pyval \<Rightarrow> string \<Rightarrow> string option \<Rightarrow> exn + (pyval \<times> pyval list)" where
  "process_thought_try be ctx current_discussion query =
     (let analysis = analyze_context be ctx current_discussion
      in case search_needed query analysis of
           Inl e \<Rightarrow> Inl e
         | Inr needed \<Rightarrow>
             (case (if needed
                    then case search_query_of query analysis of
                           Inl e \<Rightarrow> Inl e
                         | Inr search_query \<Rightarrow> Inr (Some (search_internet be search_query))
                    else Inr None) of
                Inl e \<Rightarrow> Inl e
              | Inr search_results \<Rightarrow>
                  (let response = generate_response be ctx analysis search_results
                   in case extract_references search_results of
                        Inl e \<Rightarrow> Inl e
                      | Inr references \<Rightarrow> Inr (response, references))))"

definition process_thought ::
  "thought_backends \<Rightarrow> pyval \<Rightarrow> string \<Rightarrow> string option \<Rightarrow> exn + (pyval \<times> pyval list)" where
  "process_thought be ctx current_discussion query =
     (case process_thought_try be ctx current_discussion query of
        Inr r \<Rightarrow> Inr r
      | Inl e \<Rightarrow> Inr (PStr (''Error in thought process: '' @ str_exn e), []))"

text \<open>Backends for closed statements: all unreachable; and an analysis that answers in
  prose, a search that finds one page, a generation that is unreachable.\<close>

definition dead_backends :: thought_backends where
  "dead_backends =
     \<lparr>analysis_crew_run = (\<lambda>c d. Inl (BackendError ''llm unreachable'')),
      tavily_search = (\<lambda>q. Inl (BackendError ''search unreachable'')),
      response_crew_run = (\<lambda>c a s. Inl (BackendError ''llm unreachable''))\<rparr>"

definition prose_backends :: thought_backends where
  "prose_backends =
     \<lparr>analysis_crew_run = (\<lambda>c d. Inr (PStr ''two topics were raised'')),
      tavily_search = (\<lambda>q. Inr (PList [PDict [(''title'', PStr ''T''), (''url'', PStr ''U''),
                                              (''snippet'', PStr ''S'')]])),
      response_crew_run = (\<lambda>c a s. Inl (BackendError ''llm unreachable''))\<rparr>"

section \<open>modules/speech/listener.py: AudioListener\<close>

text \<open>
  A block of audio is the list of its samples. \<open>audio_queue\<close> is \<open>queue.Queue()\<close>, made
  with no \<open>maxsize\<close>: a list with no bound, \<open>put\<close> appending to it. \<open>printed\<close> collects
  what the methods print.
\<close>

type_synonym chunk = "real list"

datatype console =
    Line string
  | AudioStats nat real

text \<open>
  The status the device library hands to the callback: falsy (\<open>Quiet\<close>), or truthy, in
  which case the callback evaluates \<open>status.flags.input_overflow\<close> on the library's
  object; \<open>Flagged\<close> carries what that evaluation gives, a truth value or an exception.
  The read is outside the \<open>try\<close> of the callback, so an exception of it leaves the
  callback before anything is put on the queue. Whether the library's object offers the
  attribute is not decided here.
\<close>

datatype cb_status =
    Quiet
  | Flagged "exn + bool"

record AudioListener =
  language :: string
  sample_rate :: int
  audio_queue :: "chunk list"
  is_listening :: bool
  printed :: "console list"

definition max_amplitude :: "chunk \<Rightarrow> real" where
  "max_amplitude indata = foldr (\<lambda>x m. max \<bar>x\<bar> m) indata 0"

text \<open>
  \<open>audio_callback\<close>. \<open>rnd\<close> is the value of \<open>np.random.random()\<close>. Inside the \<open>try\<close> the
  block is put on the queue first; \<open>np.max\<close> of an empty block raises, which the handler
  prints.
\<close>

definition audio_callback ::
  "chunk \<Rightarrow> cb_status \<Rightarrow> real \<Rightarrow> AudioListener \<Rightarrow> exn + AudioListener" where
  "audio_callback indata status rnd l =
     (case (case status of
              Quiet \<Rightarrow> Inr l
            | Flagged (Inl e) \<Rightarrow> Inl e
            | Flagged (Inr overflow) \<Rightarrow>
                Inr (if overflow then l\<lparr>printed := printed l @ [Line ''Audio input overflow'']\<rparr>
                     else l)) of
        Inl e \<Rightarrow> Inl e
      | Inr l1 \<Rightarrow>
          if is_listening l1
          then (let l2 = l1\<lparr>audio_queue := audio_queue l1 @ [indata]\<rparr>
                in if rnd < 0.1
                   then (if indata = []
                         then Inr (l2\<lparr>printed := printed l2 @
                                     [Line (''Error in audio callback: zero-size array to '' @
                                            ''reduction operation maximum which has no identity'')]\<rparr>)
                         else Inr (l2\<lparr>printed := printed l2 @
                                     [AudioStats (length indata) (max_amplitude indata)]\<rparr>))
                   else Inr l2)
          else Inr l1)"

text \<open>A sequence of invocations of the callback by the device, ended by the first one
  that raises.\<close>

record callback_call =
  cb_indata :: chunk
  cb_status :: cb_status
  cb_rnd :: real

fun audio_callbacks :: "callback_call list \<Rightarrow> AudioListener \<Rightarrow> exn + AudioListener" where
  "audio_callbacks [] l = Inr l"
| "audio_callbacks (c # cs) l =
     (case audio_callback (cb_indata c) (cb_status c) (cb_rnd c) l of
        Inl e \<Rightarrow> Inl e
      | Inr l' \<Rightarrow> audio_callbacks cs l')"

text \<open>A listener after \<open>start()\<close> with the default sample rate, a silent block of 1024
  samples (the \<open>blocksize\<close> of the stream), and an invocation to which the device reports
  nothing.\<close>

definition started_listener :: AudioListener where
  "started_listener =
     \<lparr>language = ''en'', sample_rate = 16000, audio_queue = [], is_listening = True,
      printed = []\<rparr>"

definition frame :: chunk where
  "frame = replicate 1024 0"

definition quiet_call :: callback_call where
  "quiet_call = \<lparr>cb_indata = frame, cb_status = Quiet, cb_rnd = 1 / 2\<rparr>"

text \<open>\<open>str.strip()\<close> with no argument.\<close>

definition py_strip :: "string \<Rightarrow> string" where
  "py_strip s = rev (dropWhile is_space (rev (dropWhile is_space s)))"

text \<open>
  One pass of the body of \<open>while self.is_listening\<close> in \<open>process_audio\<close>, and what it
  reads from outside its thread: the value of the listening flag at the start of read
  \<open>i\<close> and after the loop, the blocks the callback has put on the queue by the time read
  \<open>i\<close> returns or times out, whether concatenating the blocks and writing the temporary
  file succeed, and what the speech-to-text model answers. The result of a pass is the
  queue it leaves, the audio of each transcription call, the transcripts written to the
  session state and the texts handed to the registered callback; what it prints is left
  out.
\<close>

record stt_env =
  listening_at :: "nat \<Rightarrow> bool"
  arrivals :: "nat \<Rightarrow> chunk list"
  listening_after :: bool
  prepared_ok :: bool
  transcribe :: "chunk \<Rightarrow> string \<Rightarrow> exn + string"
  has_callback :: bool

text \<open>
  The collecting loop \<open>for _ in range(int(self.sample_rate * 2 / 1024))\<close>: a read that
  finds the queue empty for its whole timeout raises \<open>queue.Empty\<close> and the loop
  continues with the next read. A block on the queue is never \<open>None\<close>.
\<close>

fun collect ::
  "stt_env \<Rightarrow> nat list \<Rightarrow> chunk list \<Rightarrow> chunk list \<Rightarrow> chunk list \<times> chunk list" where
  "collect env [] q audio_data = (q, audio_data)"
| "collect env (i # is) q audio_data =
     (if \<not> listening_at env i then (q, audio_data)
      else case q @ arrivals env i of
             [] \<Rightarrow> collect env is [] audio_data
           | chunk # rest \<Rightarrow>
               collect env is rest (if chunk \<noteq> [] then audio_data @ [chunk] else audio_data))"

definition collection_reads :: "int \<Rightarrow> nat" where
  "collection_reads rate = nat ((rate * 2) div 1024)"

definition frames_obtained :: "stt_env \<Rightarrow> AudioListener \<Rightarrow> chunk list" where
  "frames_obtained env l =
     snd (collect env [0..<collection_reads (sample_rate l)] (audio_queue l) [])"

record cycle_result =
  queue_after :: "chunk list"
  transcribe_calls :: "chunk list"
  transcripts :: "string list"
  callback_calls :: "string list"

definition process_audio_cycle :: "stt_env \<Rightarrow> AudioListener \<Rightarrow> cycle_result" where
  "process_audio_cycle env l =
     (let (q, audio_data) =
            collect env [0..<collection_reads (sample_rate l)] (audio_queue l) [];
          idle = \<lparr>queue_after = q, transcribe_calls = [], transcripts = [], callback_calls = []\<rparr>
      in if audio_data \<noteq> [] \<and> listening_after env
         then if prepared_ok env
              then (let audio_concat = concat audio_data;
                        called = idle\<lparr>transcribe_calls := [audio_concat]\<rparr>
                    in case transcribe env audio_concat (language l) of
                         Inl e \<Rightarrow> called
                       | Inr result_text \<Rightarrow>
                           if py_strip result_text \<noteq> []
                           then called\<lparr>transcripts := [py_strip result_text],
                                       callback_calls := (if has_callback env
                                                          then [py_strip result_text] else [])\<rparr>
                           else called)
              else idle
         else idle)"

text \<open>The number of samples of a list of blocks; \<open>2 * sample_rate\<close> samples are two
  seconds of audio.\<close>

definition samples :: "chunk list \<Rightarrow> int" where
  "samples fs = (\<Sum>f\<leftarrow>fs. int (length f))"

text \<open>An environment in which one block arrives and nothing else, and a listener whose
  sample rate makes one block two seconds long.\<close>

definition one_frame_env :: stt_env where
  "one_frame_env =
     \<lparr>listening_at = (\<lambda>i. True),
      arrivals = (\<lambda>i. if i = 0 then [frame] else []),
      listening_after = True,
      prepared_ok = True,
      transcribe = (\<lambda>a lang. Inr ''hello''),
      has_callback = True\<rparr>"

definition half_second_listener :: AudioListener where
  "half_second_listener = started_listener\<lparr>sample_rate := 512\<rparr>"

section \<open>modules/speech/speaker.py: Speaker\<close>

text \<open>
  \<open>speech_queue\<close> is a \<open>queue.Queue()\<close>. The text-to-speech service is a parameter:
  \<open>convert\<close> synthesises, \<open>play\<close> plays to the end and returns; both may raise.
\<close>

record Speaker =
  voice_id :: "string option"
  speech_queue :: "string list"
  is_speaking :: bool

record 'a tts =
  convert :: "string \<Rightarrow> string option \<Rightarrow> exn + 'a"
  play :: "'a \<Rightarrow> exn + unit"

text \<open>
  What the worker thread does, in order. One pass of the body of \<open>while self.is_speaking\<close>
  in \<open>process_speech_queue\<close> is \<open>worker_iteration\<close>: it returns the speaker and the events
  of the pass. A \<open>get\<close> that times out on an empty queue continues the loop.
\<close>

datatype speech_event =
    Dequeued string
  | PlayStarted string
  | PlayEnded string
  | Slept
  | Printed string

definition speak :: "string \<Rightarrow> Speaker \<Rightarrow> Speaker" where
  "speak text_in sp =
     (if text_in = [] then sp else sp\<lparr>speech_queue := speech_queue sp @ [text_in]\<rparr>)"

definition worker_iteration :: "'a tts \<Rightarrow> Speaker \<Rightarrow> Speaker \<times> speech_event list" where
  "worker_iteration engine sp =
     (if \<not> is_speaking sp then (sp, [])
      else case speech_queue sp of
             [] \<Rightarrow> (sp, [])
           | text_out # rest \<Rightarrow>
               (let sp' = sp\<lparr>speech_queue := rest\<rparr>
                in if text_out \<noteq> []
                   then case convert engine text_out (voice_id sp') of
                          Inl e \<Rightarrow>
                            (sp', [Dequeued text_out,
                                   Printed (''Error generating speech: '' @ str_exn e)])
                        | Inr audio \<Rightarrow>
                            (case play engine audio of
                               Inl e \<Rightarrow>
                                 (sp', [Dequeued text_out, PlayStarted text_out,
                                        PlayEnded text_out,
                                        Printed (''Error generating speech: '' @ str_exn e)])
                             | Inr u \<Rightarrow>
                                 (sp', [Dequeued text_out, PlayStarted text_out,
                                        PlayEnded text_out, Slept]))
                   else (sp', [Dequeued text_out])))"

text \<open>
  The callers of \<open>speak\<close> and the one worker thread that \<open>start()\<close> creates, interleaved
  in any order: a schedule is a list of actions, \<open>run\<close> carries the speaker and the
  events so far through it.
\<close>

datatype action = Speak string | Iterate

fun run :: "'a tts \<Rightarrow> action list \<Rightarrow> Speaker \<times> speech_event list \<Rightarrow> Speaker \<times> speech_event list" where
  "run engine [] st = st"
| "run engine (Speak t # as) (sp, tr) = run engine as (speak t sp, tr)"
| "run engine (Iterate # as) (sp, tr) =
     (case worker_iteration engine sp of (sp', es) \<Rightarrow> run engine as (sp', tr @ es))"

text \<open>
  Read off a schedule: the texts passed to \<open>speak\<close>. Read off the events: the texts taken
  from the queue, the texts for which playback was invoked, and a scan that fails
  (\<open>None\<close>) when a playback starts or an item is taken from the queue while a playback
  is active, and otherwise tells whether one is active at the end.
\<close>

fun spoken :: "action list \<Rightarrow> string list" where
  "spoken [] = []"
| "spoken (Speak t # as) = t # spoken as"
| "spoken (Iterate # as) = spoken as"

fun dequeued :: "speech_event list \<Rightarrow> string list" where
  "dequeued [] = []"
| "dequeued (Dequeued t # es) = t # dequeued es"
| "dequeued (e # es) = dequeued es"

fun played :: "speech_event list \<Rightarrow> string list" where
  "played [] = []"
| "played (PlayStarted t # es) = t # played es"
| "played (e # es) = played es"

fun playing_after :: "bool \<Rightarrow> speech_event list \<Rightarrow> bool option" where
  "playing_after active [] = Some active"
| "playing_after active (Dequeued t # es) = (if active then None else playing_after False es)"
| "playing_after active (PlayStarted t # es) = (if active then None else playing_after True es)"
| "playing_after active (PlayEnded t # es) = (if active then playing_after False es else None)"
| "playing_after active (e # es) = playing_after active es"

text \<open>A speaker after \<open>start()\<close>, the texts a service can synthesise for a voice, and a
  service that never fails.\<close>

definition started_speaker :: Speaker where
  "started_speaker = \<lparr>voice_id = Some ''JBFqnCBsd6RMkjVDRZzb'', speech_queue = [], is_speaking = True\<rparr>"

definition synthesised :: "'a tts \<Rightarrow> string option \<Rightarrow> string \<Rightarrow> bool" where
  "synthesised engine v t = (case convert engine t v of Inl e \<Rightarrow> False | Inr a \<Rightarrow> True)"

definition ok_engine :: "string tts" where
  "ok_engine = \<lparr>convert = (\<lambda>t v. Inr t), play = (\<lambda>a. Inr ())\<rparr>"

section \<open>Properties of the memory module\<close>

subsection \<open>The recency window\<close>

lemma tl_is_drop:
  "10 < length xs \<Longrightarrow> length xs \<le> 11 \<Longrightarrow> tl xs = drop (length xs - 10) xs"
proof -
  assume "10 < length xs" "length xs \<le> 11"
  then have "length xs - 10 = Suc 0" by arith
  then show ?thesis by (simp add: drop_Suc)
qed

lemma add_message_window:
  assumes "add_message be c cm = Inr (mid, cm')"
    and "max_recent_messages cm = 10"
    and "length (recent_messages (current_context cm)) \<le> 10"
  shows "recent_messages (current_context cm') =
           drop (length (recent_messages (current_context cm) @
                 [\<lparr>msg_id = mid, msg_text = call_text c, msg_speaker = call_speaker c,
                   msg_timestamp = now_msg c\<rparr>]) - 10) (recent_messages (current_context cm) @
                 [\<lparr>msg_id = mid, msg_text = call_text c, msg_speaker = call_speaker c,
                   msg_timestamp = now_msg c\<rparr>])"
    and "max_recent_messages cm' = 10"
    and "length (recent_messages (current_context cm')) \<le> 10"
  using assms tl_is_drop [of "recent_messages (current_context cm) @
                 [\<lparr>msg_id = mid, msg_text = call_text c, msg_speaker = call_speaker c,
                   msg_timestamp = now_msg c\<rparr>]"]
  by (auto simp: add_message_def Let_def split: sum.splits prod.splits if_splits)

lemma drop_window:
  fixes R :: "'a list"
  shows "drop (length (drop (length (R @ [t]) - 10) (R @ [t]) @ A) - 10)
           (drop (length (R @ [t]) - 10) (R @ [t]) @ A)
         = drop (length (R @ t # A) - 10) (R @ t # A)"
  by (cases "length R + 1 \<le> 10") (auto simp: add.commute)

lemma add_messages_window:
  "max_recent_messages cm = 10 \<Longrightarrow> length (recent_messages (current_context cm)) \<le> 10 \<Longrightarrow>
   recent_messages (current_context (add_messages be cs cm)) =
     drop (length (recent_messages (current_context cm) @ added_turns be cs cm) - 10)
       (recent_messages (current_context cm) @ added_turns be cs cm)"
proof (induction cs arbitrary: cm)
  case Nil
  then show ?case by simp
next
  case (Cons c cs)
  show ?case
  proof (cases "add_message be c cm")
    case (Inl e)
    then show ?thesis using Cons by simp
  next
    case (Inr p)
    obtain mid cm' where p: "p = (mid, cm')" by (cases p)
    note w = add_message_window [OF Inr [unfolded p] Cons.prems]
    have "recent_messages (current_context (add_messages be cs cm')) =
      drop (length (recent_messages (current_context cm') @ added_turns be cs cm') - 10)
       (recent_messages (current_context cm') @ added_turns be cs cm')"
      using Cons.IH [OF w(2) w(3)] .
    then show ?thesis
      using Inr p
      by (simp only: w(1) drop_window add_messages.simps added_turns.simps sum.case prod.case)
  qed
qed

lemma init_invariant:
  "max_recent_messages (ContextManager_init vs) = 10"
  "recent_messages (current_context (ContextManager_init vs)) = []"
  "active_references (current_context (ContextManager_init vs)) = []"
  by (simp_all add: ContextManager_init_def empty_context_def)

lemma window_from_init:
  "recent_messages (current_context (add_messages be cs (ContextManager_init vs))) =
     drop (length (added_turns be cs (ContextManager_init vs)) - 10)
       (added_turns be cs (ContextManager_init vs))"
  using add_messages_window [of "ContextManager_init vs" be cs]
  by (simp add: init_invariant)

lemma add_message_id:
  "add_message be c cm = Inr (mid, cm') \<Longrightarrow> mid = ''conv_'' @ str_int (now_id c)"
  by (auto simp: add_message_def add_conversation_def Let_def split: sum.splits)

lemma add_message_succeeds:
  assumes "\<forall>c ds ms js. \<exists>c'. coll_add be c ds ms js = Inr c'"
  shows "\<exists>p. add_message be c cm = Inr p"
  using assms [rule_format, of "conversation_collection (vector_storage cm)" "[call_text c]"]
  apply (simp add: add_message_def add_conversation_def Let_def split: sum.splits prod.splits)
  by (metis sum.distinct(1) old.sum.exhaust)

lemma added_turns_accepting:
  "\<forall>c ds ms js. \<exists>c'. coll_add be c ds ms js = Inr c' \<Longrightarrow>
   added_turns be cs cm = map turn_of cs"
proof (induction cs arbitrary: cm)
  case Nil
  then show ?case by simp
next
  case (Cons c cs)
  obtain mid cm' where a: "add_message be c cm = Inr (mid, cm')"
    using add_message_succeeds [OF Cons.prems, of c cm] by auto
  have "mid = ''conv_'' @ str_int (now_id c)"
    using a by (rule add_message_id)
  then show ?case using a Cons.IH [OF Cons.prems, of cm'] by (simp add: turn_of_def)
qed

lemma added_turns_all:
  "\<forall>c ds ms js. \<exists>c'. coll_add be c ds ms js = Inr c' \<Longrightarrow>
   length (added_turns be cs cm) = length cs"
  by (simp add: added_turns_accepting)

lemma added_turns_subseq:
  "\<exists>sub. subseq sub cs \<and> added_turns be cs cm = map turn_of sub"
proof (induction cs arbitrary: cm)
  case Nil
  then show ?case by simp
next
  case (Cons c cs)
  show ?case
  proof (cases "add_message be c cm")
    case (Inl e)
    obtain sub where "subseq sub cs" "added_turns be cs cm = map turn_of sub"
      using Cons.IH [of cm] by blast
    then show ?thesis using Inl by (auto intro: subseq_Cons')
  next
    case (Inr p)
    obtain mid cm' where p: "p = (mid, cm')" by (cases p)
    have m: "mid = ''conv_'' @ str_int (now_id c)"
      using Inr p add_message_id [of be c cm mid cm'] by simp
    obtain sub where s: "subseq sub cs" "added_turns be cs cm' = map turn_of sub"
      using Cons.IH [of cm'] by blast
    have "subseq (c # sub) (c # cs)" using s(1) by simp
    moreover have "added_turns be (c # cs) cm = map turn_of (c # sub)"
      using Inr p m s(2) by (simp add: turn_of_def)
    ultimately show ?thesis by blast
  qed
qed

text \<open>
  C2. After any sequence of \<open>add_message\<close> calls on a fresh manager, whatever the store
  answers, the recency window is the last \<open>min k 10\<close> of the \<open>k\<close> turns added so far, in
  the order they were added, so it never holds more than 10 turns and the oldest turn is
  the one that leaves. The turns added are the entries of the calls that returned, in the
  order of the calls; when the store accepts every document every call returns, and the
  window is the entries of the last \<open>min n 10\<close> of the \<open>n\<close> calls made. The sequence is
  arbitrary, so this holds after each call.
\<close>

theorem recency_window_fifo:
  "recent_messages (current_context (add_messages be cs (ContextManager_init vs))) =
     drop (length (added_turns be cs (ContextManager_init vs)) - 10)
       (added_turns be cs (ContextManager_init vs)) \<and>
   length (recent_messages (current_context (add_messages be cs (ContextManager_init vs)))) =
     min (length (added_turns be cs (ContextManager_init vs))) 10 \<and>
   length (recent_messages (current_context (add_messages be cs (ContextManager_init vs)))) \<le> 10 \<and>
   (\<exists>sub. subseq sub cs \<and> added_turns be cs (ContextManager_init vs) = map turn_of sub) \<and>
   ((\<forall>c ds ms js. \<exists>c'. coll_add be c ds ms js = Inr c') \<longrightarrow>
      recent_messages (current_context (add_messages be cs (ContextManager_init vs))) =
        map turn_of (drop (length cs - 10) cs) \<and>
      length (recent_messages (current_context (add_messages be cs (ContextManager_init vs)))) =
        min (length cs) 10)"
proof -
  have 1: "recent_messages (current_context (add_messages be cs (ContextManager_init vs))) =
     drop (length (added_turns be cs (ContextManager_init vs)) - 10)
       (added_turns be cs (ContextManager_init vs))"
    by (rule window_from_init)
  have 2: "length (recent_messages (current_context (add_messages be cs (ContextManager_init vs)))) =
     min (length (added_turns be cs (ContextManager_init vs))) 10"
    by (simp add: window_from_init min_def)
  have 3: "length (recent_messages (current_context (add_messages be cs (ContextManager_init vs))))
     \<le> 10"
    by (simp add: 2)
  have 4: "\<exists>sub. subseq sub cs \<and> added_turns be cs (ContextManager_init vs) = map turn_of sub"
    by (rule added_turns_subseq)
  have 5: "(\<forall>c ds ms js. \<exists>c'. coll_add be c ds ms js = Inr c') \<longrightarrow>
      recent_messages (current_context (add_messages be cs (ContextManager_init vs))) =
        map turn_of (drop (length cs - 10) cs) \<and>
      length (recent_messages (current_context (add_messages be cs (ContextManager_init vs)))) =
        min (length cs) 10"
    by (simp add: window_from_init added_turns_accepting drop_map min_def)
  show ?thesis using 1 2 3 4 5 by blast
qed

theorem recency_window_fifo_witness:
  "(\<forall>c ds ms js. \<exists>c'. coll_add ok_store c ds ms js = Inr c') \<and>
   recent_messages (current_context (add_messages ok_store (map call_at [0..<12])
     (ContextManager_init
        \<lparr>conversation_collection = ''conversations'', reference_collection = ''references''\<rparr>)))
     = map turn_of (map call_at [2..<12]) \<and>
   length (recent_messages (current_context (add_messages ok_store (map call_at [0..<12])
     (ContextManager_init
        \<lparr>conversation_collection = ''conversations'', reference_collection = ''references''\<rparr>))))
     = 10"
proof -
  have h: "\<forall>c ds ms js. \<exists>c'. coll_add ok_store c ds ms js = Inr c'"
    by (simp add: ok_store_def)
  have n: "length (map call_at [0..<12]) - 10 = 2"
    by simp
  have d: "drop (length (map call_at [0..<12]) - 10) (map call_at [0..<12]) = map call_at [2..<12]"
    by (simp only: n drop_map drop_upt add_0)
  have l: "min (length (map call_at [0..<12])) 10 = 10"
    by simp
  have "recent_messages (current_context (add_messages ok_store (map call_at [0..<12])
     (ContextManager_init
        \<lparr>conversation_collection = ''conversations'', reference_collection = ''references''\<rparr>)))
     = map turn_of (drop (length (map call_at [0..<12]) - 10) (map call_at [0..<12])) \<and>
   length (recent_messages (current_context (add_messages ok_store (map call_at [0..<12])
     (ContextManager_init
        \<lparr>conversation_collection = ''conversations'', reference_collection = ''references''\<rparr>))))
     = min (length (map call_at [0..<12])) 10"
    using h recency_window_fifo [of ok_store "map call_at [0..<12]"
        "\<lparr>conversation_collection = ''conversations'', reference_collection = ''references''\<rparr>"]
    by blast
  note t = this [unfolded d l]
  show ?thesis using h t by blast
qed

subsection \<open>The conversation summary\<close>

text \<open>
  C9. After a sequence of \<open>add_message\<close> calls on a fresh manager the summary's
  \<open>message_count\<close> is the size of the recency window, \<open>min k 10\<close> for \<open>k\<close> turns added,
  not the number of turns the store holds; when the store accepts every document, \<open>k\<close> is
  the number of calls.
\<close>

theorem message_count_is_window_size:
  "message_count (get_conversation_summary t1 t2 (add_messages be cs (ContextManager_init vs))) =
     min (int (length (added_turns be cs (ContextManager_init vs)))) 10 \<and>
   ((\<forall>c ds ms js. \<exists>c'. coll_add be c ds ms js = Inr c') \<longrightarrow>
     message_count (get_conversation_summary t1 t2 (add_messages be cs (ContextManager_init vs))) =
       min (int (length cs)) 10)"
  by (auto simp add: get_conversation_summary_def window_from_init added_turns_all min_def)

theorem message_count_is_window_size_witness:
  "(\<forall>c ds ms js. \<exists>c'. coll_add ok_store c ds ms js = Inr c') \<and>
   message_count (get_conversation_summary 20 21 (add_messages ok_store (map call_at [0..<12])
     (ContextManager_init
        \<lparr>conversation_collection = ''conversations'', reference_collection = ''references''\<rparr>)))
     = 10"
proof -
  have h: "\<forall>c ds ms js. \<exists>c'. coll_add ok_store c ds ms js = Inr c'"
    by (simp add: ok_store_def)
  show ?thesis
    using h message_count_is_window_size [of 20 21 ok_store "map call_at [0..<12]"
        "\<lparr>conversation_collection = ''conversations'', reference_collection = ''references''\<rparr>"]
    by simp
qed

text \<open>
  C7. On an empty context \<open>get_conversation_summary\<close> returns \<open>message_count = 0\<close> and
  \<open>reference_count = 0\<close>, but its duration is the difference of two readings of the clock:
  when the clock advances between them (here by \<open>2\<^sup>-\<^sup>2\<^sup>2\<close> seconds, one step of a double
  at this magnitude) the duration is negative, not 0.
\<close>

theorem summary_empty_reads_clock_twice:
  "message_count (get_conversation_summary 1700000000 (1700000000 + 1 / 4194304) fresh_manager) = 0 \<and>
   reference_count (get_conversation_summary 1700000000 (1700000000 + 1 / 4194304) fresh_manager) = 0 \<and>
   duration (get_conversation_summary 1700000000 (1700000000 + 1 / 4194304) fresh_manager)
     = - (1 / 4194304) \<and>
   duration (get_conversation_summary 1700000000 (1700000000 + 1 / 4194304) fresh_manager) \<noteq> 0"
  by (simp add: get_conversation_summary_def fresh_manager_def init_invariant)

subsection \<open>Clearing the context\<close>

text \<open>
  C8. After \<open>clear_context\<close> every read (the summary at the same clock readings, the active
  references, the context for a query against the same store) returns what it returns on
  a freshly constructed manager over the same store.
\<close>

theorem clear_context_reads_as_fresh:
  "get_conversation_summary t1 t2 (clear_context cm) =
     get_conversation_summary t1 t2 (ContextManager_init (vector_storage cm)) \<and>
   get_active_references (clear_context cm) =
     get_active_references (ContextManager_init (vector_storage cm)) \<and>
   get_relevant_context be q k (clear_context cm) =
     get_relevant_context be q k (ContextManager_init (vector_storage cm))"
  by (simp add: get_conversation_summary_def get_active_references_def get_relevant_context_def
        clear_context_def ContextManager_init_def split: sum.splits)

subsection \<open>Retrieval\<close>

lemma format_results_aligned:
  assumes "documents r = ds # dss" "metadatas r = ms # mss" "ids r = js # jss"
    and "\<forall>i \<in> set ixs. i < length ds \<and> i < length ms \<and> i < length js"
  shows "format_results r ixs acc =
           Inr (acc @ map (\<lambda>i. \<lparr>hit_text = ds ! i, hit_metadata = ms ! i, hit_id = js ! i\<rparr>) ixs)"
  using assms(4)
proof (induction ixs arbitrary: acc)
  case Nil
  then show ?case by simp
next
  case (Cons i ixs)
  then show ?case using assms(1-3) by (simp add: list_index_def)
qed

lemma zip3_map_nth:
  "length ds \<le> length ms \<Longrightarrow> length ds \<le> length js \<Longrightarrow>
   map (\<lambda>i. f (ds ! i) (ms ! i) (js ! i)) [0..<length ds] =
     map (\<lambda>(d, m, j). f d m j) (zip ds (zip ms js))"
  by (rule nth_equalityI) auto

lemma search_collection_aligned:
  assumes "coll_query be c [q] k = Inr r" "aligned r"
  shows "search_collection be c q k = Inr (hits_of r)"
proof -
  obtain ds dss ms mss js jss
    where r: "documents r = ds # dss" "metadatas r = ms # mss" "ids r = js # jss"
    and len: "length ds \<le> length ms" "length ds \<le> length js"
    using assms(2) by (auto simp: aligned_def split: list.splits)
  have "format_results r [0..<length ds] [] =
     Inr ([] @ map (\<lambda>i. \<lparr>hit_text = ds ! i, hit_metadata = ms ! i, hit_id = js ! i\<rparr>)
                [0..<length ds])"
    using len by (intro format_results_aligned [OF r]) auto
  moreover have "map (\<lambda>i. \<lparr>hit_text = ds ! i, hit_metadata = ms ! i, hit_id = js ! i\<rparr>)
                   [0..<length ds] = hits_of r"
    using zip3_map_nth [of ds ms js "\<lambda>d m j. \<lparr>hit_text = d, hit_metadata = m, hit_id = j\<rparr>"] len
    by (simp add: hits_of_def r)
  ultimately show ?thesis
    using assms(1) r by (simp add: search_collection_def list_index_def)
qed

lemma search_collection_down:
  "coll_query be c [q] k = Inl e \<Longrightarrow> search_collection be c q k = Inl e"
  by (simp add: search_collection_def)

text \<open>
  C1, as the code has it. \<open>get_relevant_context\<close> has no handler: when the query on the
  conversation collection raises, or the one on the reference collection does, the same
  exception leaves \<open>get_relevant_context\<close>. When both queries answer with aligned results
  (an empty partition answering with an empty row among them), the snapshot holds the
  recency window, the participants, the topic and the formatted hits.
\<close>

theorem get_relevant_context_no_handler:
  "(coll_query be (conversation_collection (vector_storage cm)) [q] k = Inl e
      \<longrightarrow> get_relevant_context be q k cm = Inl e) \<and>
   (coll_query be (conversation_collection (vector_storage cm)) [q] k = Inr r1 \<and> aligned r1 \<and>
    coll_query be (reference_collection (vector_storage cm)) [q] k = Inl e
      \<longrightarrow> get_relevant_context be q k cm = Inl e) \<and>
   (coll_query be (conversation_collection (vector_storage cm)) [q] k = Inr r1 \<and> aligned r1 \<and>
    coll_query be (reference_collection (vector_storage cm)) [q] k = Inr r2 \<and> aligned r2
      \<longrightarrow> get_relevant_context be q k cm =
            Inr \<lparr>recent_context = recent_messages (current_context cm),
                 relevant_conversations = hits_of r1,
                 relevant_references = hits_of r2,
                 snap_participants = participants (current_context cm),
                 snap_current_topic = current_topic (current_context cm)\<rparr>)"
  by (simp add: get_relevant_context_def search_conversations_def search_references_def
        search_collection_down search_collection_aligned)

theorem get_relevant_context_no_handler_witness:
  "coll_query down_store (conversation_collection (vector_storage fresh_manager)) [''hello''] 5
     = Inl (BackendError ''backend unavailable'') \<and>
   get_relevant_context down_store ''hello'' 5 fresh_manager
     = Inl (BackendError ''backend unavailable'') \<and>
   coll_query ref_down_store (conversation_collection (vector_storage fresh_manager)) [''hello''] 5
     = Inr empty_result \<and>
   coll_query ref_down_store (reference_collection (vector_storage fresh_manager)) [''hello''] 5
     = Inl (BackendError ''backend unavailable'') \<and>
   get_relevant_context ref_down_store ''hello'' 5 fresh_manager
     = Inl (BackendError ''backend unavailable'') \<and>
   coll_query ok_store (conversation_collection (vector_storage fresh_manager)) [''hello''] 5
     = Inr empty_result \<and>
   aligned empty_result \<and>
   coll_query ok_store (reference_collection (vector_storage fresh_manager)) [''hello''] 5
     = Inr empty_result \<and>
   get_relevant_context ok_store ''hello'' 5 fresh_manager =
     Inr \<lparr>recent_context = [], relevant_conversations = [], relevant_references = [],
          snap_participants = {}, snap_current_topic = None\<rparr>"
proof -
  have al: "aligned empty_result"
    by (simp add: aligned_def empty_result_def)
  have vs: "conversation_collection (vector_storage fresh_manager) = ''conversations''"
    "reference_collection (vector_storage fresh_manager) = ''references''"
    "recent_messages (current_context fresh_manager) = []"
    "participants (current_context fresh_manager) = {}"
    "current_topic (current_context fresh_manager) = None"
    by (simp_all add: fresh_manager_def ContextManager_init_def empty_context_def)
  have hs: "hits_of empty_result = []"
    by (simp add: hits_of_def empty_result_def)
  have d: "coll_query down_store ''conversations'' [''hello''] 5
             = Inl (BackendError ''backend unavailable'')"
    by (simp add: down_store_def)
  have r: "coll_query ref_down_store ''conversations'' [''hello''] 5 = Inr empty_result"
    "coll_query ref_down_store ''references'' [''hello''] 5
       = Inl (BackendError ''backend unavailable'')"
    by (simp_all add: ref_down_store_def)
  have k: "coll_query ok_store ''conversations'' [''hello''] 5 = Inr empty_result"
    "coll_query ok_store ''references'' [''hello''] 5 = Inr empty_result"
    by (simp_all add: ok_store_def)
  show ?thesis
    using get_relevant_context_no_handler
      [of down_store fresh_manager "''hello''" 5 "BackendError ''backend unavailable''"
          empty_result empty_result]
      get_relevant_context_no_handler
      [of ref_down_store fresh_manager "''hello''" 5 "BackendError ''backend unavailable''"
          empty_result empty_result]
      get_relevant_context_no_handler
      [of ok_store fresh_manager "''hello''" 5 "BackendError ''backend unavailable''"
          empty_result empty_result]
    by (simp add: al vs hs d r k)
qed

text \<open>
  C1, as the specification states it, fails: with a store whose queries raise, the call
  on a fresh manager raises instead of returning the recency-only snapshot.
\<close>

theorem get_relevant_context_down_store:
  "get_relevant_context down_store ''hello'' 5 fresh_manager =
     Inl (BackendError ''backend unavailable'')"
  by (simp add: get_relevant_context_def search_conversations_def search_collection_def
        down_store_def)

section \<open>Properties of the text chunker\<close>

lemma split_from_words:
  "\<forall>c \<in> set cur. \<not> is_space c \<Longrightarrow> \<forall>w \<in> set (split_from cur s). word w"
proof (induction s arbitrary: cur)
  case Nil
  then show ?case by (simp add: word_def)
next
  case (Cons a s)
  have e: "\<forall>w \<in> set (split_from [] s). word w"
    using Cons.IH [of "[]"] by simp
  have n: "\<not> is_space a \<Longrightarrow> \<forall>w \<in> set (split_from (cur @ [a]) s). word w"
    using Cons.IH [of "cur @ [a]"] Cons.prems by simp
  show ?case using e n Cons.prems by (simp add: word_def)
qed

lemma py_split_words: "\<forall>w \<in> set (py_split s). word w"
  using split_from_words [of "[]" s] by (simp add: py_split_def)

lemma split_from_append:
  "\<forall>c \<in> set w. \<not> is_space c \<Longrightarrow> split_from cur (w @ rest) = split_from (cur @ w) rest"
  by (induction w arbitrary: cur) auto

lemma is_space_blank: "is_space CHR '' ''"
  by (simp add: is_space_def)

lemma split_from_join:
  "\<forall>w \<in> set ws. word w \<Longrightarrow> word w0 \<Longrightarrow>
   split_from cur (w0 @ CHR '' '' # join_space ws) = (cur @ w0) # ws"
proof (induction ws arbitrary: cur w0 rule: join_space.induct)
  case 1
  then show ?case by (simp add: split_from_append word_def is_space_blank)
next
  case (2 w)
  then show ?case 
    using split_from_append [of w "[]" "[]"]
    by (simp add: split_from_append word_def is_space_blank)
next
  case (3 w v ws)
  then show ?case 
    using "3.IH" [of w "[]"]
    by (simp add: split_from_append word_def is_space_blank)
qed

lemma py_split_join: "\<forall>w \<in> set ws. word w \<Longrightarrow> py_split (join_space ws) = ws"
proof (cases ws rule: join_space.cases)
  case 1
  then show ?thesis by (simp add: py_split_def)
next
  case (2 w)
  assume "\<forall>w \<in> set ws. word w"
  then show ?thesis using 2 split_from_append [of w "[]" "[]"] by (simp add: py_split_def word_def)
next
  case (3 w v vs)
  assume "\<forall>w \<in> set ws. word w"
  then show ?thesis using 3 split_from_join [of "v # vs" w "[]"] by (simp add: py_split_def)
qed


lemma length_join_space: "ws \<noteq> [] \<Longrightarrow> int (length (join_space ws)) = wsize ws - 1"
  by (induction ws rule: join_space.induct) (simp_all add: wsize_def)

lemma chunk_text_finish: "chunk_text s n = finish (chunk_loop n (py_split s) [] [] 0)"
  by (simp add: chunk_text_def finish_def)

lemma chunk_loop_words:
  "\<forall>w \<in> set cur. word w \<Longrightarrow> \<forall>w \<in> set ws. word w \<Longrightarrow>
   concat (map py_split (finish (chunk_loop n ws chunks cur sz))) =
     concat (map py_split chunks) @ cur @ ws"
proof (induction ws arbitrary: chunks cur sz)
  case Nil
  then show ?case by (simp add: finish_def py_split_join)
next
  case (Cons w ws)
  have w: "word w" "\<forall>w \<in> set ws. word w" using Cons.prems(2) by simp_all
  have a: "concat (map py_split (finish (chunk_loop n ws (chunks @ [join_space cur]) [w]
             (int (length w) + 1)))) = concat (map py_split (chunks @ [join_space cur])) @ [w] @ ws"
    using w by (intro Cons.IH) simp_all
  have b: "concat (map py_split (finish (chunk_loop n ws chunks (cur @ [w])
             (sz + (int (length w) + 1))))) = concat (map py_split chunks) @ (cur @ [w]) @ ws"
    using w Cons.prems(1) by (intro Cons.IH) simp_all
  show ?case using a b by (simp add: Let_def py_split_join [OF Cons.prems(1)])
qed

lemma wsize_nonneg: "0 \<le> wsize ws"
  by (induction ws) (simp_all add: wsize_def)

lemma wsize_bound: "w \<in> set ws \<Longrightarrow> int (length w) < wsize ws"
proof (induction ws)
  case Nil
  then show ?case by simp
next
  case (Cons v ws)
  have c: "wsize (v # ws) = int (length v) + 1 + wsize ws" by (simp add: wsize_def)
  show ?case
  proof (cases "w = v")
    case True
    then show ?thesis using c wsize_nonneg [of ws] by simp
  next
    case False
    then have "int (length w) < wsize ws" using Cons by simp
    then show ?thesis using c by simp
  qed
qed

lemma join_space_ok:
  assumes "\<forall>w \<in> set cur. word w" "2 \<le> length cur \<longrightarrow> wsize cur \<le> n"
  shows "chunk_ok n (join_space cur)"
proof (cases "2 \<le> length cur")
  case True
  then have ne: "cur \<noteq> []" by auto
  have "wsize cur \<le> n" using True assms(2) by simp
  then show ?thesis
    using wsize_bound [of _ cur] length_join_space [OF ne]
    by (fastforce simp: chunk_ok_def py_split_join [OF assms(1)])
next
  case False
  then consider "cur = []" | w where "cur = [w]"
    by (cases cur rule: join_space.cases) auto
  then show ?thesis
  proof cases
    case 1
    then show ?thesis by (simp add: chunk_ok_def py_split_def)
  next
    case 2
    then show ?thesis using py_split_join [OF assms(1)] by (simp add: chunk_ok_def)
  qed
qed


lemma chunk_loop_ok:
  "\<forall>w \<in> set cur. word w \<Longrightarrow> \<forall>w \<in> set ws. word w \<Longrightarrow>
   \<forall>c \<in> set chunks. chunk_ok n c \<Longrightarrow> sz = wsize cur \<Longrightarrow> (2 \<le> length cur \<longrightarrow> sz \<le> n) \<Longrightarrow>
   \<forall>c \<in> set (finish (chunk_loop n ws chunks cur sz)). chunk_ok n c"
proof (induction ws arbitrary: chunks cur sz)
  case Nil
  then show ?case using join_space_ok [of cur n] by (simp add: finish_def)
next
  case (Cons w ws)
  have w: "word w" "\<forall>w \<in> set ws. word w" using Cons.prems(2) by simp_all
  have j: "chunk_ok n (join_space cur)"
    using join_space_ok [of cur n] Cons.prems by simp
  have a: "\<forall>c \<in> set (finish (chunk_loop n ws (chunks @ [join_space cur]) [w]
             (int (length w) + 1))). chunk_ok n c"
    using w j Cons.prems(3) by (intro Cons.IH) (simp_all add: wsize_def)
  have b: "\<not> n < sz + (int (length w) + 1) \<Longrightarrow>
           \<forall>c \<in> set (finish (chunk_loop n ws chunks (cur @ [w]) (sz + (int (length w) + 1)))).
             chunk_ok n c"
    using w Cons.prems by (intro Cons.IH) (simp_all add: wsize_def)
  show ?case using a b by (simp add: Let_def)
qed

text \<open>
  C10. For every text and chunk size (positive or not), the words of the chunks, in order,
  are the words of the text; a chunk of at least two words is at most \<open>chunk_size\<close> long;
  and a word longer than \<open>chunk_size\<close> is a chunk of its own.
\<close>

theorem chunk_text_partitions_words:
  "concat (map py_split (chunk_text s n)) = py_split s \<and>
   (\<forall>c \<in> set (chunk_text s n). 2 \<le> length (py_split c) \<longrightarrow> int (length c) \<le> n) \<and>
   (\<forall>c \<in> set (chunk_text s n). \<forall>w \<in> set (py_split c). n < int (length w) \<longrightarrow> c = w)"
proof -
  have 1: "concat (map py_split (chunk_text s n)) = py_split s"
    using chunk_loop_words [of "[]" "py_split s" n "[]" 0] py_split_words [of s]
    by (simp add: chunk_text_finish)
  have "\<forall>c \<in> set (chunk_text s n). chunk_ok n c"
    using chunk_loop_ok [of "[]" "py_split s" "[]" n 0] py_split_words [of s]
    by (simp add: chunk_text_finish wsize_def)
  then show ?thesis using 1 by (simp add: chunk_ok_def)
qed

lemma chunk_text_example: "chunk_text ''aa bb ccccccc d'' 6 = [''aa bb'', ''ccccccc'', ''d'']"
  by (simp add: chunk_text_def py_split_def is_space_def Let_def)

lemma split_example: "py_split ''aa bb'' = [''aa'', ''bb'']" "py_split ''ccccccc'' = [''ccccccc'']"
  by (simp_all add: py_split_def is_space_def)

theorem chunk_text_partitions_words_witness:
  "chunk_text ''aa bb ccccccc d'' 6 = [''aa bb'', ''ccccccc'', ''d''] \<and>
   concat (map py_split [''aa bb'', ''ccccccc'', ''d'']) = py_split ''aa bb ccccccc d'' \<and>
   ''aa bb'' \<in> set (chunk_text ''aa bb ccccccc d'' 6) \<and>
   2 \<le> length (py_split ''aa bb'') \<and> int (length ''aa bb'') \<le> 6 \<and>
   ''ccccccc'' \<in> set (chunk_text ''aa bb ccccccc d'' 6) \<and>
   ''ccccccc'' \<in> set (py_split ''ccccccc'') \<and> 6 < int (length ''ccccccc'')"
  using chunk_text_partitions_words [of "''aa bb ccccccc d''" 6] 
  by (simp add: chunk_text_example split_example)

section \<open>Properties of the thought cycle\<close>

lemma process_thought_returns:
  "\<exists>response references. process_thought be ctx d q = Inr (response, references)"
  by (cases "process_thought_try be ctx d q") (auto simp: process_thought_def)

lemma process_thought_handler:
  "process_thought_try be ctx d q = Inl e \<Longrightarrow>
   process_thought be ctx d q = Inr (PStr (''Error in thought process: '' @ str_exn e), [])"
  by (simp add: process_thought_def)

lemma generate_response_fails:
  "\<forall>c a s. \<exists>e. response_crew_run be c a s = Inl e \<Longrightarrow>
   \<exists>e. generate_response be ctx a s = PStr (''Error generating response: '' @ str_exn e)"
proof -
  assume "\<forall>c a s. \<exists>e. response_crew_run be c a s = Inl e"
  then obtain e where "response_crew_run be ctx a s = Inl e" by blast
  then show ?thesis by (auto simp: generate_response_def)
qed

lemma search_internet_fails:
  "\<forall>x. \<exists>e. tavily_search be x = Inl e \<Longrightarrow>
   extract_references (Some (search_internet be x)) = Inr []"
proof -
  assume "\<forall>x. \<exists>e. tavily_search be x = Inl e"
  then obtain e where "tavily_search be x = Inl e" by blast
  then show ?thesis by (simp add: search_internet_def extract_references_def py_get_def)
qed

lemma analyze_context_fails:
  "\<forall>c d. \<exists>e. analysis_crew_run be c d = Inl e \<Longrightarrow> \<not> truthy_query q \<Longrightarrow>
   search_needed q (analyze_context be ctx d) = Inr False"
proof -
  assume "\<forall>c d. \<exists>e. analysis_crew_run be c d = Inl e" "\<not> truthy_query q"
  moreover from this obtain e where "analysis_crew_run be ctx d = Inl e" by blast
  ultimately show ?thesis by (simp add: analyze_context_def search_needed_def py_get_def)
qed

lemma try_gen_search_fail:
  assumes g: "\<forall>c a s. \<exists>e. response_crew_run be c a s = Inl e"
    and s: "\<forall>x. \<exists>e. tavily_search be x = Inl e"
  shows "(\<exists>e. process_thought_try be ctx d q = Inl e) \<or>
         (\<exists>e. process_thought_try be ctx d q =
                 Inr (PStr (''Error generating response: '' @ str_exn e), []))"
proof (cases "search_needed q (analyze_context be ctx d)")
  case (Inl e)
  then show ?thesis by (simp add: process_thought_try_def)
next
  case (Inr needed)
  show ?thesis
  proof (cases needed)
    case False
    then show ?thesis
      using Inr generate_response_fails [OF g, of ctx "analyze_context be ctx d" None]
      by (auto simp: process_thought_try_def extract_references_def)
  next
    case True
    show ?thesis
    proof (cases "search_query_of q (analyze_context be ctx d)")
      case (Inl e)
      then show ?thesis using Inr True by (simp add: process_thought_try_def)
    next
      case sq: (Inr search_query)
      show ?thesis
        using Inr True sq search_internet_fails [OF s, of search_query]
          generate_response_fails [OF g, of ctx "analyze_context be ctx d"
             "Some (search_internet be search_query)"]
        by (auto simp: process_thought_try_def)
    qed
  qed
qed

lemma try_gen_analysis_fail:
  assumes g: "\<forall>c a s. \<exists>e. response_crew_run be c a s = Inl e"
    and a: "\<forall>c d. \<exists>e. analysis_crew_run be c d = Inl e"
    and q: "\<not> truthy_query q"
  shows "\<exists>e. process_thought_try be ctx d q =
                 Inr (PStr (''Error generating response: '' @ str_exn e), [])"
  using analyze_context_fails [OF a q, of ctx d]
    generate_response_fails [OF g, of ctx "analyze_context be ctx d" None]
  by (auto simp: process_thought_try_def extract_references_def)

lemma try_response:
  "process_thought_try be ctx d q = Inr (response, references) \<Longrightarrow>
   \<exists>sr. response = generate_response be ctx (analyze_context be ctx d) sr"
  by (auto simp: process_thought_try_def Let_def split: sum.splits if_splits)

lemma gen_fail_text:
  assumes g: "\<forall>c a s. \<exists>e. response_crew_run be c a s = Inl e"
  shows "\<exists>msg references. msg \<noteq> [] \<and> process_thought be ctx d q = Inr (PStr msg, references)"
proof (cases "process_thought_try be ctx d q")
  case (Inl e)
  then show ?thesis by (simp add: process_thought_def)
next
  case (Inr p)
  obtain response references where p: "p = (response, references)" by (cases p)
  obtain sr where "response = generate_response be ctx (analyze_context be ctx d) sr"
    using try_response [of be ctx d q response references] Inr p by auto
  then obtain e where "response = PStr (''Error generating response: '' @ str_exn e)"
    using generate_response_fails [OF g, of ctx "analyze_context be ctx d" sr] by auto
  then show ?thesis using Inr p by (simp add: process_thought_def)
qed

lemma search_internet_succeeds:
  "tavily_search be x = Inr r \<Longrightarrow> py_iter r = Inr xs \<Longrightarrow> reference_triples xs = Inr refs \<Longrightarrow>
   extract_references (Some (search_internet be x)) = Inr refs"
  by (simp add: search_internet_def extract_references_def py_get_def)

lemma gen_fail_after_search:
  assumes g: "\<forall>c a s. \<exists>e. response_crew_run be c a s = Inl e"
    and q: "q = Some s" "s \<noteq> []"
    and r: "tavily_search be (PStr s) = Inr r" "py_iter r = Inr xs"
      "reference_triples xs = Inr refs"
  shows "\<exists>e. process_thought be ctx d q =
              Inr (PStr (''Error generating response: '' @ str_exn e), refs)"
proof -
  have n: "search_needed q (analyze_context be ctx d) = Inr True"
    using q by (simp add: search_needed_def truthy_query_def)
  have sq: "search_query_of q (analyze_context be ctx d) = Inr (PStr s)"
    using q by (simp add: search_query_of_def)
  obtain e where "generate_response be ctx (analyze_context be ctx d)
      (Some (search_internet be (PStr s))) = PStr (''Error generating response: '' @ str_exn e)"
    using generate_response_fails [OF g] by blast
  then have "process_thought_try be ctx d q =
      Inr (PStr (''Error generating response: '' @ str_exn e), refs)"
    using n sq search_internet_succeeds [OF r] by (simp add: process_thought_try_def)
  then show ?thesis by (auto simp: process_thought_def)
qed

text \<open>
  C3, as the code has it. \<open>process_thought\<close> returns a pair for every input and every
  behaviour of its backends. When the generation backend raises, the response text is a
  non-empty error text. The reference list is empty when the body of the \<open>try\<close> raises
  (the pair of the outer handler) and when the generation backend raises and the search
  produced nothing: the search backend raises too, or the analysis backend raises and no
  query was given, so that no search runs. When the generation backend raises after a
  search for the given query that succeeded, the error text comes with the references
  taken from the search results.
\<close>

theorem process_thought_never_raises:
  "(\<exists>response references. process_thought be ctx d q = Inr (response, references)) \<and>
   ((\<forall>c a s. \<exists>e. response_crew_run be c a s = Inl e)
      \<longrightarrow> (\<exists>msg references. msg \<noteq> [] \<and>
             process_thought be ctx d q = Inr (PStr msg, references))) \<and>
   ((\<forall>c a s. \<exists>e. response_crew_run be c a s = Inl e) \<and>
    ((\<forall>x. \<exists>e. tavily_search be x = Inl e) \<or>
     (\<forall>c d. \<exists>e. analysis_crew_run be c d = Inl e) \<and> \<not> truthy_query q)
      \<longrightarrow> (\<exists>msg. msg \<noteq> [] \<and> process_thought be ctx d q = Inr (PStr msg, []))) \<and>
   (\<forall>e. process_thought_try be ctx d q = Inl e
      \<longrightarrow> process_thought be ctx d q =
            Inr (PStr (''Error in thought process: '' @ str_exn e), [])) \<and>
   ((\<forall>c a s. \<exists>e. response_crew_run be c a s = Inl e) \<and> q = Some s \<and> s \<noteq> [] \<and>
    tavily_search be (PStr s) = Inr r \<and> py_iter r = Inr xs \<and> reference_triples xs = Inr refs
      \<longrightarrow> (\<exists>e. process_thought be ctx d q =
                Inr (PStr (''Error generating response: '' @ str_exn e), refs)))"
proof (intro conjI impI allI)
  show "\<exists>response references. process_thought be ctx d q = Inr (response, references)"
    by (rule process_thought_returns)
next
  assume "\<forall>c a s. \<exists>e. response_crew_run be c a s = Inl e"
  then show "\<exists>msg references. msg \<noteq> [] \<and>
             process_thought be ctx d q = Inr (PStr msg, references)"
    by (rule gen_fail_text)
next
  assume h: "(\<forall>c a s. \<exists>e. response_crew_run be c a s = Inl e) \<and>
    ((\<forall>x. \<exists>e. tavily_search be x = Inl e) \<or>
     (\<forall>c d. \<exists>e. analysis_crew_run be c d = Inl e) \<and> \<not> truthy_query q)"
  then have "(\<exists>e. process_thought_try be ctx d q = Inl e) \<or>
         (\<exists>e. process_thought_try be ctx d q =
                 Inr (PStr (''Error generating response: '' @ str_exn e), []))"
    using try_gen_search_fail [of be ctx d q] try_gen_analysis_fail [of be q ctx d] by blast
  then show "\<exists>msg. msg \<noteq> [] \<and> process_thought be ctx d q = Inr (PStr msg, [])"
    by (auto simp: process_thought_def)
next
  fix e
  assume "process_thought_try be ctx d q = Inl e"
  then show "process_thought be ctx d q =
            Inr (PStr (''Error in thought process: '' @ str_exn e), [])"
    by (rule process_thought_handler)
next
  assume "(\<forall>c a s. \<exists>e. response_crew_run be c a s = Inl e) \<and> q = Some s \<and> s \<noteq> [] \<and>
    tavily_search be (PStr s) = Inr r \<and> py_iter r = Inr xs \<and> reference_triples xs = Inr refs"
  then show "\<exists>e. process_thought be ctx d q =
                Inr (PStr (''Error generating response: '' @ str_exn e), refs)"
    using gen_fail_after_search [of be q s r xs refs ctx d] by blast
qed

lemma prose_try: "process_thought_try prose_backends (PDict []) ''hello'' None
  = Inl (AttributeError (quoted ''str'' @ '' object has no attribute '' @ quoted ''get''))"
  by (simp add: process_thought_try_def prose_backends_def analyze_context_def
      search_needed_def truthy_query_def py_get_def)

lemma prose_search:
  "tavily_search prose_backends (PStr ''q'') =
     Inr (PList [PDict [(''title'', PStr ''T''), (''url'', PStr ''U''), (''snippet'', PStr ''S'')]])"
  "py_iter (PList [PDict [(''title'', PStr ''T''), (''url'', PStr ''U''), (''snippet'', PStr ''S'')]])
     = Inr [PDict [(''title'', PStr ''T''), (''url'', PStr ''U''), (''snippet'', PStr ''S'')]]"
  "reference_triples [PDict [(''title'', PStr ''T''), (''url'', PStr ''U''), (''snippet'', PStr ''S'')]]
     = Inr [PDict [(''title'', PStr ''T''), (''url'', PStr ''U''), (''snippet'', PStr ''S'')]]"
  by (simp_all add: prose_backends_def py_iter_def py_get_def)

theorem process_thought_never_raises_witness:
  "(\<forall>c a s. \<exists>e. response_crew_run dead_backends c a s = Inl e) \<and>
   (\<forall>x. \<exists>e. tavily_search dead_backends x = Inl e) \<and>
   (\<exists>msg. msg \<noteq> [] \<and>
      process_thought dead_backends (PDict []) ''hello'' (Some ''q'') = Inr (PStr msg, [])) \<and>
   process_thought_try prose_backends (PDict []) ''hello'' None =
     Inl (AttributeError (quoted ''str'' @ '' object has no attribute '' @ quoted ''get'')) \<and>
   process_thought prose_backends (PDict []) ''hello'' None =
     Inr (PStr (''Error in thought process: '' @
            quoted ''str'' @ '' object has no attribute '' @ quoted ''get''), []) \<and>
   (\<forall>c a s. \<exists>e. response_crew_run prose_backends c a s = Inl e) \<and>
   tavily_search prose_backends (PStr ''q'') =
     Inr (PList [PDict [(''title'', PStr ''T''), (''url'', PStr ''U''), (''snippet'', PStr ''S'')]]) \<and>
   (\<exists>e. process_thought prose_backends (PDict []) ''hello'' (Some ''q'') =
      Inr (PStr (''Error generating response: '' @ str_exn e),
           [PDict [(''title'', PStr ''T''), (''url'', PStr ''U''), (''snippet'', PStr ''S'')]]))"
proof -
  have g: "\<forall>c a s. \<exists>e. response_crew_run dead_backends c a s = Inl e"
    and s: "\<forall>x. \<exists>e. tavily_search dead_backends x = Inl e"
    by (simp_all add: dead_backends_def)
  have pg: "\<forall>c a s. \<exists>e. response_crew_run prose_backends c a s = Inl e"
    by (simp add: prose_backends_def)
  have 1: "\<exists>msg. msg \<noteq> [] \<and>
      process_thought dead_backends (PDict []) ''hello'' (Some ''q'') = Inr (PStr msg, [])"
    using g s process_thought_never_raises [of dead_backends "PDict []" "''hello''" "Some ''q''"]
    by blast
  have 2: "process_thought prose_backends (PDict []) ''hello'' None =
     Inr (PStr (''Error in thought process: '' @
            quoted ''str'' @ '' object has no attribute '' @ quoted ''get''), [])"
    using prose_try process_thought_never_raises [of prose_backends "PDict []" "''hello''" None]
    by simp
  have 3: "\<exists>e. process_thought prose_backends (PDict []) ''hello'' (Some ''q'') =
      Inr (PStr (''Error generating response: '' @ str_exn e),
           [PDict [(''title'', PStr ''T''), (''url'', PStr ''U''), (''snippet'', PStr ''S'')]])"
    using pg prose_search
      process_thought_never_raises [of prose_backends "PDict []" "''hello''" "Some ''q''" "''q''"
        "PList [PDict [(''title'', PStr ''T''), (''url'', PStr ''U''), (''snippet'', PStr ''S'')]]"
        "[PDict [(''title'', PStr ''T''), (''url'', PStr ''U''), (''snippet'', PStr ''S'')]]"
        "[PDict [(''title'', PStr ''T''), (''url'', PStr ''U''), (''snippet'', PStr ''S'')]]"]
    by simp
  show ?thesis using g s pg 1 2 3 prose_try prose_search(1) by blast
qed

text \<open>
  C3, as the specification states it, fails: with a generation backend that raises and a
  search for the given query that finds one page, the result is the error text together
  with a reference, not with the empty list.
\<close>

theorem generation_failure_keeps_references:
  "response_crew_run prose_backends (PDict []) (analyze_context prose_backends (PDict []) ''hello'')
     (Some (search_internet prose_backends (PStr ''q''))) = Inl (BackendError ''llm unreachable'') \<and>
   process_thought prose_backends (PDict []) ''hello'' (Some ''q'') =
     Inr (PStr ''Error generating response: llm unreachable'',
          [PDict [(''title'', PStr ''T''), (''url'', PStr ''U''), (''snippet'', PStr ''S'')]])"
  by (simp add: process_thought_def process_thought_try_def prose_backends_def
      analyze_context_def search_needed_def truthy_query_def search_query_of_def
      search_internet_def generate_response_def extract_references_def py_get_def py_iter_def)

section \<open>Properties of the audio listener\<close>

lemma audio_callback_queue:
  "audio_callback indata status rnd l = Inr l' \<Longrightarrow>
   is_listening l' = is_listening l \<and>
   audio_queue l' = (if is_listening l then audio_queue l @ [indata] else audio_queue l)"
  by (auto simp: audio_callback_def Let_def split: cb_status.splits sum.splits if_splits)

lemma audio_callback_returns:
  "(\<forall>e. status \<noteq> Flagged (Inl e)) \<Longrightarrow> \<exists>l'. audio_callback indata status rnd l = Inr l'"
  by (auto simp: audio_callback_def Let_def split: cb_status.splits sum.splits if_splits)

lemma audio_callbacks_queue:
  "audio_callbacks cs l = Inr l' \<Longrightarrow>
   is_listening l' = is_listening l \<and>
   audio_queue l' = (if is_listening l then audio_queue l @ map cb_indata cs else audio_queue l)"
proof (induction cs arbitrary: l)
  case Nil
  then show ?case by simp
next
  case (Cons c cs)
  then obtain l1 where 1: "audio_callback (cb_indata c) (cb_status c) (cb_rnd c) l = Inr l1"
    and 2: "audio_callbacks cs l1 = Inr l'"
    by (auto split: sum.splits)
  show ?case using audio_callback_queue [OF 1] Cons.IH [OF 2] by simp
qed

lemma audio_callbacks_return:
  "\<forall>c \<in> set cs. \<forall>e. cb_status c \<noteq> Flagged (Inl e) \<Longrightarrow> \<exists>l'. audio_callbacks cs l = Inr l'"
proof (induction cs arbitrary: l)
  case Nil
  then show ?case by simp
next
  case (Cons c cs)
  then obtain l1 where "audio_callback (cb_indata c) (cb_status c) (cb_rnd c) l = Inr l1"
    using audio_callback_returns [of "cb_status c" "cb_indata c" "cb_rnd c" l] by auto
  then show ?case using Cons by simp
qed

lemma quiet_calls_return:
  "\<forall>c \<in> set cs. cb_status c = Quiet \<Longrightarrow> \<exists>l'. audio_callbacks cs l = Inr l'"
  by (rule audio_callbacks_return) simp

text \<open>
  C6, as the code has it. The queue has no bound and the callback drops nothing: a
  sequence of invocations to which the device reports no status returns, and while the
  listener is listening every block handed to the callback is appended to the queue, so
  the queue grows by one block per invocation.
\<close>

theorem audio_queue_grows_with_every_frame:
  "(\<forall>c \<in> set cs. cb_status c = Quiet) \<longrightarrow>
     (\<exists>l'. audio_callbacks cs l = Inr l' \<and>
        audio_queue l' = (if is_listening l then audio_queue l @ map cb_indata cs else audio_queue l) \<and>
        (is_listening l \<longrightarrow> length (audio_queue l') = length (audio_queue l) + length cs))"
proof
  assume a: "\<forall>c \<in> set cs. cb_status c = Quiet"
  obtain l' where l': "audio_callbacks cs l = Inr l'"
    using quiet_calls_return [OF a] by blast
  show "\<exists>l'. audio_callbacks cs l = Inr l' \<and>
        audio_queue l' = (if is_listening l then audio_queue l @ map cb_indata cs else audio_queue l) \<and>
        (is_listening l \<longrightarrow> length (audio_queue l') = length (audio_queue l) + length cs)"
    using l' audio_callbacks_queue [OF l'] by simp
qed

theorem audio_queue_grows_with_every_frame_witness:
  "cb_status quiet_call = Quiet \<and> is_listening started_listener \<and>
   (\<exists>l'. audio_callbacks [quiet_call, quiet_call, quiet_call] started_listener = Inr l' \<and>
      audio_queue l' = [frame, frame, frame])"
proof -
  have st: "cb_status quiet_call = Quiet"
    by (simp add: quiet_call_def)
  have h: "\<forall>c \<in> set [quiet_call, quiet_call, quiet_call]. cb_status c = Quiet"
    by (simp add: st)
  have s: "is_listening started_listener" "audio_queue started_listener = []"
    "map cb_indata [quiet_call, quiet_call, quiet_call] = [frame, frame, frame]"
    by (simp_all add: quiet_call_def started_listener_def)
  obtain l' where
    "audio_callbacks [quiet_call, quiet_call, quiet_call] started_listener = Inr l'"
    "audio_queue l' = [frame, frame, frame]"
    using audio_queue_grows_with_every_frame
      [of "[quiet_call, quiet_call, quiet_call]" started_listener] h s
    by auto
  then show ?thesis using st s(1) by blast
qed

text \<open>
  C6, as the specification states it, fails: no number bounds the length of the queue
  over all sequences of invocations on a started listener.
\<close>

theorem audio_queue_has_no_bound:
  "\<not> (\<exists>B. \<forall>cs l'. audio_callbacks cs started_listener = Inr l' \<longrightarrow> length (audio_queue l') \<le> B)"
proof
  assume "\<exists>B. \<forall>cs l'. audio_callbacks cs started_listener = Inr l' \<longrightarrow> length (audio_queue l') \<le> B"
  then obtain B where
    B: "\<And>cs l'. audio_callbacks cs started_listener = Inr l' \<Longrightarrow> length (audio_queue l') \<le> B"
    by blast
  let ?cs = "replicate (Suc B) quiet_call"
  have "\<forall>c \<in> set ?cs. cb_status c = Quiet"
    by (simp add: quiet_call_def)
  then obtain l' where l': "audio_callbacks ?cs started_listener = Inr l'"
    using quiet_calls_return by blast
  have "length (audio_queue l') = Suc B"
    using audio_callbacks_queue [OF l'] by (simp add: started_listener_def)
  then show False using B [OF l'] by simp
qed

lemma collect_silent:
  "\<forall>i \<in> set ixs. arrivals env i = [] \<Longrightarrow> collect env ixs [] audio_data = ([], audio_data)"
  by (induction ixs) simp_all

lemma collect_length:
  "length (snd (collect env ixs q audio_data)) \<le> length audio_data + length ixs"
proof (induction ixs arbitrary: q audio_data)
  case Nil
  then show ?case by simp
next
  case (Cons i ixs)
  show ?case
  proof (cases "q @ arrivals env i")
    case Nil
    then show ?thesis using Cons [of "[]" audio_data] by simp
  next
    case (Cons c rest)
    then show ?thesis
      using Cons.IH [of rest "audio_data @ [c]"] Cons.IH [of rest audio_data]
      by (simp del: append_is_Nil_conv)
  qed
qed

lemma collect_nonempty:
  "\<forall>f \<in> set audio_data. f \<noteq> [] \<Longrightarrow> \<forall>f \<in> set (snd (collect env ixs q audio_data)). f \<noteq> []"
proof (induction ixs arbitrary: q audio_data)
  case Nil
  then show ?case by simp
next
  case (Cons i ixs)
  show ?case
  proof (cases "q @ arrivals env i")
    case Nil
    then show ?thesis using Cons.IH [of audio_data "[]"] Cons.prems by simp
  next
    case c: (Cons c rest)
    have 1: "c \<noteq> [] \<Longrightarrow> \<forall>f \<in> set (snd (collect env ixs rest (audio_data @ [c]))). f \<noteq> []"
      using Cons.prems by (intro Cons.IH) simp
    have 2: "\<forall>f \<in> set (snd (collect env ixs rest audio_data)). f \<noteq> []"
      using Cons.prems by (intro Cons.IH) 
    show ?thesis using c 1 2 Cons.prems by (simp del: append_is_Nil_conv)
  qed
qed

lemma samples_nonneg: "0 \<le> samples fs"
  by (induction fs) (simp_all add: samples_def)

lemma samples_pos: "\<forall>f \<in> set fs. f \<noteq> [] \<Longrightarrow> (0 < samples fs) = (fs \<noteq> [])"
proof (induction fs)
  case Nil
  then show ?case by (simp add: samples_def)
next
  case (Cons f fs)
  have "0 \<le> samples fs" by (rule samples_nonneg)
  moreover have "samples (f # fs) = int (length f) + samples fs" by (simp add: samples_def)
  moreover have "0 < int (length f)" using Cons.prems by simp
  ultimately have "0 < samples (f # fs)" by linarith
  then show ?case by simp
qed

lemma frames_obtained_pos:
  "(0 < samples (frames_obtained env l)) = (frames_obtained env l \<noteq> [])"
  using collect_nonempty [of "[]" env] by (intro samples_pos) (simp add: frames_obtained_def)

lemma cycle_calls:
  "length (transcribe_calls (process_audio_cycle env l)) =
     (if frames_obtained env l \<noteq> [] \<and> listening_after env \<and> prepared_ok env then 1 else 0)"
  by (simp add: process_audio_cycle_def frames_obtained_def Let_def split: prod.splits sum.splits)

text \<open>
  C4, as the code has it. One cycle makes at most \<open>int(sample_rate * 2 / 1024)\<close> reads of
  the queue and then exactly one transcription call when it has obtained any audio at
  all, the listening flag is still set and the audio could be written; otherwise none.
  In particular a cycle that obtained exactly two seconds of audio makes one call.
\<close>

theorem one_transcription_when_any_audio:
  "length (transcribe_calls (process_audio_cycle env l)) =
     (if 0 < samples (frames_obtained env l) \<and> listening_after env \<and> prepared_ok env
      then 1 else 0) \<and>
   length (frames_obtained env l) \<le> collection_reads (sample_rate l) \<and>
   (samples (frames_obtained env l) = 2 * sample_rate l \<and> 0 < sample_rate l \<and>
    listening_after env \<and> prepared_ok env
      \<longrightarrow> length (transcribe_calls (process_audio_cycle env l)) = 1)"
proof -
  have 1: "length (transcribe_calls (process_audio_cycle env l)) =
     (if 0 < samples (frames_obtained env l) \<and> listening_after env \<and> prepared_ok env
      then 1 else 0)"
    by (simp add: cycle_calls frames_obtained_pos)
  have 2: "length (frames_obtained env l) \<le> collection_reads (sample_rate l)"
    using collect_length [of env "[0..<collection_reads (sample_rate l)]" "audio_queue l" "[]"]
    by (simp add: frames_obtained_def)
  have 3: "samples (frames_obtained env l) = 2 * sample_rate l \<and> 0 < sample_rate l \<and>
    listening_after env \<and> prepared_ok env
      \<longrightarrow> length (transcribe_calls (process_audio_cycle env l)) = 1"
    using 1 by simp
  show ?thesis using 1 2 3 by blast
qed

lemma one_frame_obtained:
  "0 < n \<Longrightarrow> collect one_frame_env [0..<n] [] [] = ([], [frame])"
proof -
  assume "0 < n"
  then have u: "[0..<n] = 0 # [Suc 0..<n]" by (simp add: upt_conv_Cons)
  have "collect one_frame_env [Suc 0..<n] [] [frame] = ([], [frame])"
    by (rule collect_silent) (simp add: one_frame_env_def)
  then show ?thesis by (simp add: u) (simp add: one_frame_env_def frame_def)
qed

lemma one_frame_16000: "frames_obtained one_frame_env started_listener = [frame]"
  using one_frame_obtained [of "collection_reads 16000"]
  by (simp add: frames_obtained_def started_listener_def collection_reads_def)

lemma one_frame_512: "frames_obtained one_frame_env half_second_listener = [frame]"
  using one_frame_obtained [of "collection_reads 512"]
  by (simp add: frames_obtained_def half_second_listener_def started_listener_def collection_reads_def)

lemma samples_frame: "samples [frame] = 1024"
  by (simp add: samples_def frame_def)

text \<open>
  C4, as the specification states it, fails: at 16000 Hz a cycle that obtained one block
  of 1024 samples, far less than two seconds, makes a transcription call.
\<close>

theorem one_frame_is_transcribed:
  "samples (frames_obtained one_frame_env started_listener) < 2 * sample_rate started_listener \<and>
   length (transcribe_calls (process_audio_cycle one_frame_env started_listener)) = 1"
  by (simp add: cycle_calls one_frame_16000 samples_frame)
     (simp add: started_listener_def one_frame_env_def)

theorem one_transcription_when_any_audio_witness:
  "samples (frames_obtained one_frame_env half_second_listener)
     = 2 * sample_rate half_second_listener \<and>
   0 < sample_rate half_second_listener \<and>
   listening_after one_frame_env \<and> prepared_ok one_frame_env \<and>
   length (transcribe_calls (process_audio_cycle one_frame_env half_second_listener)) = 1"
proof -
  have s: "samples (frames_obtained one_frame_env half_second_listener) = 1024"
    by (simp only: one_frame_512 samples_frame)
  have r: "sample_rate half_second_listener = 512"
    by (simp add: half_second_listener_def)
  have e: "listening_after one_frame_env" "prepared_ok one_frame_env"
    by (simp_all add: one_frame_env_def)
  show ?thesis
    using s r e one_transcription_when_any_audio [of one_frame_env half_second_listener]
    by simp
qed

section \<open>Properties of the speaker\<close>

lemma dequeued_append: "dequeued (xs @ ys) = dequeued xs @ dequeued ys"
  by (induction xs rule: dequeued.induct) simp_all

lemma played_append: "played (xs @ ys) = played xs @ played ys"
  by (induction xs rule: played.induct) simp_all

lemma playing_after_append:
  "playing_after a (xs @ ys) = (case playing_after a xs of None \<Rightarrow> None | Some b \<Rightarrow> playing_after b ys)"
  by (induction a xs rule: playing_after.induct) simp_all

lemma worker_iteration_all:
  assumes w: "worker_iteration engine sp = (sp', es)"
    and q: "\<forall>t \<in> set (speech_queue sp). t \<noteq> []"
  shows "dequeued es @ speech_queue sp' = speech_queue sp \<and>
         played es = filter (synthesised engine (voice_id sp)) (dequeued es) \<and>
         playing_after False es = Some False \<and>
         voice_id sp' = voice_id sp \<and> is_speaking sp' = is_speaking sp \<and>
         (\<forall>t \<in> set (speech_queue sp'). t \<noteq> [])"
proof (cases "is_speaking sp")
  case False
  then have "sp' = sp" "es = []" using w by (simp_all add: worker_iteration_def)
  then show ?thesis using q by simp
next
  case True
  show ?thesis
  proof (cases "speech_queue sp")
    case Nil
    then have "sp' = sp" "es = []" using w True by (simp_all add: worker_iteration_def)
    then show ?thesis using q by simp
  next
    case (Cons t rest)
    then have t: "t \<noteq> []" and rest: "\<forall>t \<in> set rest. t \<noteq> []" using q by simp_all
    show ?thesis
    proof (cases "convert engine t (voice_id sp)")
      case (Inl e)
      then have "sp' = sp\<lparr>speech_queue := rest\<rparr>"
        "es = [Dequeued t, Printed (''Error generating speech: '' @ str_exn e)]"
        using w True Cons t by (simp_all add: worker_iteration_def)
      then show ?thesis using Cons rest Inl by (simp add: synthesised_def)
    next
      case (Inr audio)
      show ?thesis
      proof (cases "play engine audio")
        case pl: (Inl e)
        then have "sp' = sp\<lparr>speech_queue := rest\<rparr>"
          "es = [Dequeued t, PlayStarted t, PlayEnded t,
                 Printed (''Error generating speech: '' @ str_exn e)]"
          using w True Cons t Inr by (simp_all add: worker_iteration_def)
        then show ?thesis using Cons rest Inr by (simp add: synthesised_def)
      next
        case pr: (Inr u)
        then have "sp' = sp\<lparr>speech_queue := rest\<rparr>"
          "es = [Dequeued t, PlayStarted t, PlayEnded t, Slept]"
          using w True Cons t Inr by (simp_all add: worker_iteration_def)
        then show ?thesis using Cons rest Inr by (simp add: synthesised_def)
      qed
    qed
  qed
qed

lemma worker_iteration_facts:
  assumes "worker_iteration engine sp = (sp', es)"
    and "\<forall>t \<in> set (speech_queue sp). t \<noteq> []"
  shows "dequeued es @ speech_queue sp' = speech_queue sp"
    and "played es = filter (synthesised engine (voice_id sp)) (dequeued es)"
    and "playing_after False es = Some False"
    and "voice_id sp' = voice_id sp" and "is_speaking sp' = is_speaking sp"
    and "\<forall>t \<in> set (speech_queue sp'). t \<noteq> []"
  using worker_iteration_all [OF assms] by blast+

lemma speak_facts:
  "speech_queue (speak t sp) = speech_queue sp @ filter (\<lambda>t. t \<noteq> []) [t]"
  "voice_id (speak t sp) = voice_id sp" "is_speaking (speak t sp) = is_speaking sp"
  by (simp_all add: speak_def)

lemma run_facts:
  assumes "\<forall>t \<in> set (speech_queue sp). t \<noteq> []"
    and "played tr = filter (synthesised engine (voice_id sp)) (dequeued tr)"
    and "playing_after False tr = Some False"
  shows "dequeued (snd (run engine as (sp, tr))) @ speech_queue (fst (run engine as (sp, tr))) =
           dequeued tr @ speech_queue sp @ filter (\<lambda>t. t \<noteq> []) (spoken as)
         \<and> played (snd (run engine as (sp, tr))) =
             filter (synthesised engine (voice_id sp)) (dequeued (snd (run engine as (sp, tr))))
         \<and> playing_after False (snd (run engine as (sp, tr))) = Some False
         \<and> voice_id (fst (run engine as (sp, tr))) = voice_id sp
         \<and> is_speaking (fst (run engine as (sp, tr))) = is_speaking sp
         \<and> (\<forall>t \<in> set (speech_queue (fst (run engine as (sp, tr)))). t \<noteq> [])"
  using assms
proof (induction as arbitrary: sp tr)
  case Nil
  then show ?case by simp
next
  case (Cons a as)
  show ?case
  proof (cases a)
    case (Speak t)
    have "\<forall>t \<in> set (speech_queue (speak t sp)). t \<noteq> []"
      using Cons.prems(1) by (simp add: speak_facts)
    from Cons.IH [OF this, of tr] Cons.prems(2,3)
    show ?thesis by (simp add: Speak speak_facts)
  next
    case Iterate
    obtain sp' es where w: "worker_iteration engine sp = (sp', es)"
      by (cases "worker_iteration engine sp")
    note f = worker_iteration_facts [OF w Cons.prems(1)]
    have "played (tr @ es) = filter (synthesised engine (voice_id sp')) (dequeued (tr @ es))"
      using Cons.prems(2) f(2) f(4) by (simp add: played_append dequeued_append)
    moreover have "playing_after False (tr @ es) = Some False"
      using Cons.prems(3) f(3) by (simp add: playing_after_append)
    ultimately have "dequeued (snd (run engine as (sp', tr @ es))) @
          speech_queue (fst (run engine as (sp', tr @ es))) =
           dequeued (tr @ es) @ speech_queue sp' @ filter (\<lambda>t. t \<noteq> []) (spoken as)
         \<and> played (snd (run engine as (sp', tr @ es))) =
             filter (synthesised engine (voice_id sp')) (dequeued (snd (run engine as (sp', tr @ es))))
         \<and> playing_after False (snd (run engine as (sp', tr @ es))) = Some False
         \<and> voice_id (fst (run engine as (sp', tr @ es))) = voice_id sp'
         \<and> is_speaking (fst (run engine as (sp', tr @ es))) = is_speaking sp'
         \<and> (\<forall>t \<in> set (speech_queue (fst (run engine as (sp', tr @ es)))). t \<noteq> [])"
      using f(6) by (intro Cons.IH)
    then show ?thesis
      using f(1) f(4) f(5) by (simp add: Iterate w dequeued_append)
  qed
qed

lemma run_append: "run engine (as @ bs) st = run engine bs (run engine as st)"
proof (induction as arbitrary: st)
  case Nil
  then show ?case by simp
next
  case (Cons a as)
  obtain sp tr where st: "st = (sp, tr)" by (cases st)
  show ?case using Cons by (cases a) (simp_all add: st split: prod.splits)
qed

lemma worker_iteration_shrinks:
  "is_speaking sp \<Longrightarrow> length (speech_queue (fst (worker_iteration engine sp))) = length (speech_queue sp) - 1
     \<and> is_speaking (fst (worker_iteration engine sp))"
  by (auto simp: worker_iteration_def Let_def split: list.splits sum.splits)

lemma drain:
  "is_speaking sp \<Longrightarrow> length (speech_queue sp) \<le> n \<Longrightarrow>
   speech_queue (fst (run engine (replicate n Iterate) (sp, tr))) = []"
proof (induction n arbitrary: sp tr)
  case 0
  then show ?case by simp
next
  case (Suc n)
  obtain sp' es where w: "worker_iteration engine sp = (sp', es)"
    by (cases "worker_iteration engine sp")
  have "is_speaking sp'" "length (speech_queue sp') \<le> n"
    using worker_iteration_shrinks [OF Suc.prems(1), of engine] Suc.prems(2) w by simp_all
  then show ?case using Suc.IH [of sp' "tr @ es"] w by simp
qed

lemma spoken_append: "spoken (as @ bs) = spoken as @ spoken bs"
  by (induction as rule: spoken.induct) simp_all

lemma spoken_iterate: "spoken (replicate n Iterate) = []"
  by (induction n) simp_all

text \<open>
  C5. For every schedule of \<open>speak\<close> calls and passes of the worker on a started speaker:
  the texts taken from the queue followed by the texts still waiting are the non-empty
  texts passed to \<open>speak\<close>, in that order; playback is invoked, once and in the same order,
  for those taken texts that the service could synthesise; no playback starts and no text
  is taken from the queue while a playback is active. After as many further passes as
  there were non-empty texts, all of them have been taken, and played when the service
  synthesises every text.
\<close>

theorem speech_in_order_one_at_a_time:
  assumes "speech_queue sp0 = []" and "is_speaking sp0"
  shows "dequeued (snd (run engine as (sp0, []))) @ speech_queue (fst (run engine as (sp0, [])))
           = filter (\<lambda>t. t \<noteq> []) (spoken as) \<and>
         played (snd (run engine as (sp0, []))) =
           filter (synthesised engine (voice_id sp0)) (dequeued (snd (run engine as (sp0, [])))) \<and>
         playing_after False (snd (run engine as (sp0, []))) = Some False \<and>
         dequeued (snd (run engine
             (as @ replicate (length (filter (\<lambda>t. t \<noteq> []) (spoken as))) Iterate) (sp0, [])))
           = filter (\<lambda>t. t \<noteq> []) (spoken as) \<and>
         ((\<forall>t. synthesised engine (voice_id sp0) t) \<longrightarrow>
            played (snd (run engine
              (as @ replicate (length (filter (\<lambda>t. t \<noteq> []) (spoken as))) Iterate) (sp0, [])))
            = filter (\<lambda>t. t \<noteq> []) (spoken as))"
proof -
  let ?n = "length (filter (\<lambda>t. t \<noteq> []) (spoken as))"
  let ?all = "as @ replicate ?n Iterate"
  have init: "\<forall>t \<in> set (speech_queue sp0). t \<noteq> []"
    "played [] = filter (synthesised engine (voice_id sp0)) (dequeued [])"
    "playing_after False [] = Some False"
    using assms(1) by simp_all
  note a = run_facts [OF init, of as]
  note b = run_facts [OF init, of ?all]
  obtain sp tr where r: "run engine as (sp0, []) = (sp, tr)"
    by (cases "run engine as (sp0, [])")
  have "is_speaking sp" using a r assms(2) by simp
  moreover have "length (speech_queue sp) \<le> ?n"
  proof -
    have "length (dequeued tr @ speech_queue sp) = ?n" using a r assms(1) by simp
    then show ?thesis by simp
  qed
  ultimately have "speech_queue (fst (run engine (replicate ?n Iterate) (sp, tr))) = []"
    by (rule drain)
  then have e: "speech_queue (fst (run engine ?all (sp0, []))) = []"
    by (simp add: run_append r)
  have d: "dequeued (snd (run engine ?all (sp0, []))) = filter (\<lambda>t. t \<noteq> []) (spoken as)"
    using b e assms(1) by (simp add: spoken_append spoken_iterate)
  have p: "(\<forall>t. synthesised engine (voice_id sp0) t) \<longrightarrow>
            played (snd (run engine ?all (sp0, []))) = filter (\<lambda>t. t \<noteq> []) (spoken as)"
  proof
    assume s: "\<forall>t. synthesised engine (voice_id sp0) t"
    have "played (snd (run engine ?all (sp0, []))) =
            filter (synthesised engine (voice_id sp0)) (dequeued (snd (run engine ?all (sp0, []))))"
      using b by blast
    also have "\<dots> = dequeued (snd (run engine ?all (sp0, [])))"
      using s by simp
    finally show "played (snd (run engine ?all (sp0, []))) = filter (\<lambda>t. t \<noteq> []) (spoken as)"
      by (simp only: d)
  qed
  have a1: "dequeued (snd (run engine as (sp0, []))) @ speech_queue (fst (run engine as (sp0, [])))
           = filter (\<lambda>t. t \<noteq> []) (spoken as)"
    using a assms(1) by simp
  have a2: "played (snd (run engine as (sp0, []))) =
           filter (synthesised engine (voice_id sp0)) (dequeued (snd (run engine as (sp0, []))))"
    using a by blast
  have a3: "playing_after False (snd (run engine as (sp0, []))) = Some False"
    using a by blast
  show ?thesis using a1 a2 a3 d p by blast
qed

theorem speech_in_order_one_at_a_time_witness:
  "speech_queue started_speaker = [] \<and> is_speaking started_speaker \<and>
   (\<forall>t. synthesised ok_engine (voice_id started_speaker) t) \<and>
   played (snd (run ok_engine
     ([Speak ''a'', Speak ''b'', Iterate, Speak [], Speak ''c''] @ replicate 3 Iterate)
     (started_speaker, []))) = [''a'', ''b'', ''c'']"
proof -
  have h: "speech_queue started_speaker = []" "is_speaking started_speaker"
    by (simp_all add: started_speaker_def)
  have s: "\<forall>t. synthesised ok_engine (voice_id started_speaker) t"
    by (simp add: synthesised_def ok_engine_def)
  have f: "filter (\<lambda>t. t \<noteq> []) (spoken [Speak ''a'', Speak ''b'', Iterate, Speak [], Speak ''c''])
             = [''a'', ''b'', ''c'']"
    by simp
  have l: "length [''a'', ''b'', ''c''] = 3"
    by simp
  have "played (snd (run ok_engine
     ([Speak ''a'', Speak ''b'', Iterate, Speak [], Speak ''c''] @
      replicate (length (filter (\<lambda>t. t \<noteq> [])
        (spoken [Speak ''a'', Speak ''b'', Iterate, Speak [], Speak ''c'']))) Iterate)
     (started_speaker, []))) =
     filter (\<lambda>t. t \<noteq> []) (spoken [Speak ''a'', Speak ''b'', Iterate, Speak [], Speak ''c''])"
    using s speech_in_order_one_at_a_time [OF h, of ok_engine
        "[Speak ''a'', Speak ''b'', Iterate, Speak [], Speak ''c'']"]
    by blast
  then have "played (snd (run ok_engine
     ([Speak ''a'', Speak ''b'', Iterate, Speak [], Speak ''c''] @ replicate 3 Iterate)
     (started_speaker, []))) = [''a'', ''b'', ''c'']"
    by (simp only: f l)
  then show ?thesis using h s by blast
qed

end
